theory Spec2Isabelle
  imports Main
begin

text \<open>
  An embedding of the template compiler of \<open>src/index.ts\<close>: the patterns of its table
  \<open>regex\<close>, the tag tree builder \<open>parse\<close> with \<open>parseProps\<close> and \<open>findAll\<close>, the
  static analyzer \<open>detectStaticNodes\<close>, the code generator \<open>compileNode\<close> with
  \<open>compileProps\<close> and \<open>parseInterpolations\<close>, the evaluator \<open>saferEval\<close> and the facade
  \<open>compile\<close> with its render function. A function that throws returns an \<open>error\<close> on
  the left of a sum; a function that changes a node returns the changed node.
\<close>

section \<open>Regular expressions\<close>

text \<open>
  The template compiler is driven by the regular expressions of its pattern table
  (\<open>regex.anyTag\<close>, \<open>regex.openingTag\<close>, \<open>regex.attributes\<close>, \<open>regex.comments\<close>).
  They are embedded as values of a small pattern datatype, and matched by a backtracking
  matcher in continuation-passing style that tries the alternatives in the order of the
  JavaScript engine: a quantifier is greedy, and an iteration of a quantifier that
  consumes no character is rejected.

  Strings are lists of 8-bit characters; a character stands for the code unit of the same
  number.
\<close>

datatype re =
    Eps
  | Cls "char list"
  | NCls "char list"
  | Seq re re
  | Star re
  | Opt re
  | Grp nat re

type_synonym caps = "string option list"

fun bt :: "re \<Rightarrow> string \<Rightarrow> caps \<Rightarrow> (string \<Rightarrow> caps \<Rightarrow> 'a option) \<Rightarrow> 'a option" where
  "bt Eps s c k = k s c"
| "bt (Cls cs) s c k =
     (case s of [] \<Rightarrow> None | x # xs \<Rightarrow> if x \<in> set cs then k xs c else None)"
| "bt (NCls cs) s c k =
     (case s of [] \<Rightarrow> None | x # xs \<Rightarrow> if x \<notin> set cs then k xs c else None)"
| "bt (Seq a b) s c k = bt a s c (\<lambda>s' c'. bt b s' c' k)"
| "bt (Star a) s c k =
     (case bt a s c (\<lambda>s' c'. if length s' < length s then bt (Star a) s' c' k else None) of
        Some r \<Rightarrow> Some r
      | None \<Rightarrow> k s c)"
| "bt (Opt a) s c k =
     (case bt a s c (\<lambda>s' c'. if length s' < length s then k s' c' else None) of
        Some r \<Rightarrow> Some r
      | None \<Rightarrow> k s c)"
| "bt (Grp n a) s c k =
     bt a s c (\<lambda>s' c'. k s' (c'[n := Some (take (length s - length s') s)]))"

text \<open>
  The result of \<open>RegExp.prototype.exec\<close>: the index of the match, the matched text
  (element 0 of the match array) and the capture groups (elements 1, 2, ...; \<open>None\<close> is
  \<open>undefined\<close>).
\<close>

record regmatch =
  index :: nat
  matched :: string
  groups :: "string option list"

text \<open>Before a match starts, every capture group is \<open>undefined\<close>.\<close>

fun init_caps :: "re \<Rightarrow> caps" where
  "init_caps (Grp n a) = None # init_caps a"
| "init_caps (Seq a b) = init_caps a @ init_caps b"
| "init_caps (Star a) = init_caps a"
| "init_caps (Opt a) = init_caps a"
| "init_caps _ = []"

fun scan :: "re \<Rightarrow> nat \<Rightarrow> string \<Rightarrow> regmatch option" where
  "scan r i s =
     (case bt r s (init_caps r) (\<lambda>s' c'. Some (s', c')) of
        Some (s', c') \<Rightarrow>
          Some \<lparr>index = i, matched = take (length s - length s') s, groups = c'\<rparr>
      | None \<Rightarrow> (case s of [] \<Rightarrow> None | x # t \<Rightarrow> scan r (Suc i) t))"

text \<open>\<open>exec_from r s i\<close>: the first match of \<open>r\<close> in \<open>s\<close> at or after position \<open>i\<close>,
  the \<open>lastIndex\<close> of a global pattern.\<close>

definition exec_from :: "re \<Rightarrow> string \<Rightarrow> nat \<Rightarrow> regmatch option" where
  "exec_from r s i = (if length s < i then None else scan r i (drop i s))"

definition exec :: "re \<Rightarrow> string \<Rightarrow> regmatch option" where
  "exec r s = exec_from r s 0"

fun seqs :: "re list \<Rightarrow> re" where
  "seqs [] = Eps"
| "seqs [r] = r"
| "seqs (r # rs) = Seq r (seqs rs)"

definition Plus :: "re \<Rightarrow> re" where
  "Plus r = Seq r (Star r)"

definition lit :: "string \<Rightarrow> re" where
  "lit s = seqs (map (\<lambda>x. Cls [x]) s)"

text \<open>The class \<open>\s\<close>: tab, line feed, vertical tab, form feed, carriage return, space
  and the no-break space.\<close>

definition ws :: "char list" where
  "ws = [CHR 0x09, CHR 0x0A, CHR 0x0B, CHR 0x0C, CHR 0x0D, CHR '' '', CHR 0xA0]"

definition tagname :: re where
  "tagname = NCls (ws @ [CHR ''/'', CHR ''<'', CHR ''>'', CHR ''='', CHR 0x22, CHR 0x27])"

definition attrs_part :: re where
  "attrs_part =
     Plus (seqs [Plus tagname,
                 Opt (seqs [lit [CHR ''='', CHR 0x22], Star (NCls [CHR 0x22]), lit [CHR 0x22]]),
                 Star (Cls ws)])"

definition anyTag :: re where
  "anyTag =
     seqs [lit ''<'', Star (Cls ws), Opt (lit ''/''), Star (Cls ws),
           Grp 0 (Plus tagname), Star (Cls ws),
           Opt (Grp 1 attrs_part), Star (Cls ws),
           Opt (Grp 2 (lit ''/'')), Star (Cls ws), lit ''>'']"

definition openingTag :: re where
  "openingTag =
     seqs [lit ''<'', Star (Cls ws),
           Grp 0 (Plus tagname), Star (Cls ws),
           Opt (Grp 1 attrs_part), Star (Cls ws),
           Opt (Grp 2 (lit ''/'')), Star (Cls ws), lit ''>'']"

definition attributes :: re where
  "attributes =
     seqs [Grp 0 (Plus (NCls (ws @ [CHR ''/'', CHR 0x22, CHR 0x27, CHR ''='']))),
           Opt (seqs [lit [CHR ''='', CHR 0x22], Grp 1 (Star (NCls [CHR 0x22])), lit [CHR 0x22]])]"

definition comments :: re where
  "comments = seqs [lit ''<!--'', Plus (NCls [CHR 0x0A, CHR 0x0D]), lit ''-->'']"

subsection \<open>Every match of a consuming pattern makes progress\<close>

declare bt.simps [simp del] scan.simps [simp del]

text \<open>A pattern that cannot match the empty string.\<close>

fun consuming :: "re \<Rightarrow> bool" where
  "consuming (Cls cs) = True"
| "consuming (NCls cs) = True"
| "consuming (Seq a b) = (consuming a \<or> consuming b)"
| "consuming (Grp n a) = consuming a"
| "consuming _ = False"

lemma bt_shorter:
  "bt r s c k = Some x \<Longrightarrow>
     \<exists>s' c'. k s' c' = Some x \<and> length s' \<le> length s \<and> (consuming r \<longrightarrow> length s' < length s)"
proof (induction r s c k arbitrary: x rule: bt.induct)
  case (1 s c k)
  then show ?case by (auto simp: bt.simps)
next
  case (2 cs s c k)
  then show ?case by (cases s) (auto simp: bt.simps split: if_splits)
next
  case (3 cs s c k)
  then show ?case by (cases s) (auto simp: bt.simps split: if_splits)
next
  case (4 a b s c k)
  from 4(3) have "bt a s c (\<lambda>s' c'. bt b s' c' k) = Some x" by (simp add: bt.simps)
  from 4(2)[OF this] obtain s1 c1 where
    a: "bt b s1 c1 k = Some x" "length s1 \<le> length s" "consuming a \<longrightarrow> length s1 < length s"
    by auto
  from 4(1)[OF a(1)] obtain s2 c2 where
    b: "k s2 c2 = Some x" "length s2 \<le> length s1" "consuming b \<longrightarrow> length s2 < length s1"
    by auto
  from a b show ?case by (intro exI[of _ s2] exI[of _ c2]) auto
next
  case (5 a s c k)
  show ?case
  proof (cases "bt a s c (\<lambda>s' c'. if length s' < length s then bt (Star a) s' c' k else None)")
    case None
    with 5(3) show ?thesis by (auto simp: bt.simps)
  next
    case (Some r)
    with 5(3) have rx: "r = x" by (simp add: bt.simps)
    from 5(2)[OF Some[unfolded rx]] obtain s1 c1 where
      i: "(if length s1 < length s then bt (Star a) s1 c1 k else None) = Some x"
      by blast
    then have a: "length s1 < length s" "bt (Star a) s1 c1 k = Some x"
      by (cases "length s1 < length s"; simp)+
    from 5(1)[OF a(1) a(2)] a(1) show ?thesis by fastforce
  qed
next
  case (6 a s c k)
  show ?case
  proof (cases "bt a s c (\<lambda>s' c'. if length s' < length s then k s' c' else None)")
    case None
    with 6(2) show ?thesis by (auto simp: bt.simps)
  next
    case (Some r)
    with 6(2) have rx: "r = x" by (simp add: bt.simps)
    from 6(1)[OF Some[unfolded rx]] show ?thesis by (fastforce split: if_splits)
  qed
next
  case (7 n a s c k)
  from 7(2) have "bt a s c (\<lambda>s' c'. k s' (c'[n := Some (take (length s - length s') s)])) = Some x"
    by (simp add: bt.simps)
  from 7(1)[OF this] show ?case by auto
qed

lemma scan_progress:
  "scan r i s = Some m \<Longrightarrow> consuming r \<Longrightarrow> i \<le> index m \<and> matched m \<noteq> []"
proof (induction r i s rule: scan.induct)
  case (1 r i s)
  show ?case
  proof (cases "bt r s (init_caps r) (\<lambda>s' c'. Some (s', c'))")
    case None
    with 1(2) obtain x t where s: "s = x # t" and sc: "scan r (Suc i) t = Some m"
      by (cases s) (auto simp: scan.simps[of r i])
    from 1(1)[OF None s sc 1(3)] show ?thesis by simp
  next
    case (Some p)
    obtain s' c' where p: "p = (s', c')" by (cases p)
    from bt_shorter[OF Some] 1(3) p have "length s' < length s" by auto
    with 1(2) Some p show ?thesis by (auto simp: scan.simps[of r i])
  qed
qed

lemma exec_from_progress:
  assumes "exec_from r s i = Some m" and "consuming r"
  shows "i \<le> length s \<and> i < index m + length (matched m)"
proof -
  from assms(1) have le: "i \<le> length s" and sc: "scan r i (drop i s) = Some m"
    by (auto simp: exec_from_def split: if_splits)
  from scan_progress[OF sc assms(2)] have "i \<le> index m" "0 < length (matched m)" by auto
  with le show ?thesis by linarith
qed

lemma consuming_pats: "consuming anyTag" "consuming attributes" "consuming comments"
  by (simp_all add: anyTag_def attributes_def comments_def lit_def Plus_def)

section \<open>Dictionaries and virtual nodes\<close>

text \<open>
  A \<open>Dict\<close> is modelled by the list of its own properties in the order in which
  \<open>for ... in\<close>, \<open>Object.keys\<close> and \<open>Object.entries\<close> enumerate them: the keys that
  are array indices first, in ascending numeric order, then the other keys in the order
  of their creation.
\<close>

type_synonym 'v Dict = "(string \<times> 'v) list"

definition digit :: "char \<Rightarrow> bool" where
  "digit x = (x \<in> set ''0123456789'')"

definition decimal :: "string \<Rightarrow> nat" where
  "decimal k = foldl (\<lambda>n x. 10 * n + (of_char x - 48)) 0 k"

text \<open>An array index is the canonical decimal form of an integer below \<open>2^32 - 1\<close>.\<close>

definition array_index :: "string \<Rightarrow> nat option" where
  "array_index k =
     (if k \<noteq> [] \<and> list_all digit k \<and> (k = ''0'' \<or> hd k \<noteq> CHR ''0'') \<and> decimal k < 4294967295
      then Some (decimal k) else None)"

fun insert_index :: "nat \<Rightarrow> string \<Rightarrow> 'v \<Rightarrow> 'v Dict \<Rightarrow> 'v Dict" where
  "insert_index n k v [] = [(k, v)]"
| "insert_index n k v ((k', v') # d) =
     (case array_index k' of
        Some m \<Rightarrow> if m < n then (k', v') # insert_index n k v d else (k, v) # (k', v') # d
      | None \<Rightarrow> (k, v) # (k', v') # d)"

text \<open>\<open>dict_in k d\<close>: \<open>k\<close> is an own property of \<open>d\<close>.\<close>

definition dict_in :: "string \<Rightarrow> 'v Dict \<Rightarrow> bool" where
  "dict_in k d = (k \<in> set (map fst d))"

text \<open>The creation or the change of an own property: an existing property keeps its
  place.\<close>

definition dict_set :: "'v Dict \<Rightarrow> string \<Rightarrow> 'v \<Rightarrow> 'v Dict" where
  "dict_set d k v =
     (if dict_in k d then map (\<lambda>(k', v'). if k' = k then (k', v) else (k', v')) d
      else case array_index k of
             Some n \<Rightarrow> insert_index n k v d
           | None \<Rightarrow> d @ [(k, v)])"

definition dict_delete :: "'v Dict \<Rightarrow> string \<Rightarrow> 'v Dict" where
  "dict_delete d k = filter (\<lambda>(k', v'). k' \<noteq> k) d"

text \<open>The value of an attribute: its text, or \<open>true\<close>.\<close>

datatype propval = PStr string | PTrue

text \<open>
  The props of a node are made by an object literal (\<open>{}\<close> in \<open>parse\<close> and in
  \<open>parseProps\<close>), so their prototype is \<open>Object.prototype\<close>. The operator \<open>in\<close>
  finds the names of the members of that prototype in every props object
  (\<open>props_in\<close>), none of which is enumerable. The assignment \<open>props[k] = v\<close>
  (\<open>props_set\<close>) of a text or of \<open>true\<close> creates or changes the own property \<open>k\<close>,
  but for the name \<open>__proto__\<close>: that assignment goes to the setter of the prototype,
  which ignores a value that is not an object, and nothing is stored.
\<close>

definition object_prototype :: "string list" where
  "object_prototype =
     [''constructor'', ''__defineGetter__'', ''__defineSetter__'', ''hasOwnProperty'',
      ''__lookupGetter__'', ''__lookupSetter__'', ''isPrototypeOf'', ''propertyIsEnumerable'',
      ''toString'', ''valueOf'', ''__proto__'', ''toLocaleString'']"

definition props_in :: "string \<Rightarrow> propval Dict \<Rightarrow> bool" where
  "props_in k ps = (dict_in k ps \<or> k \<in> set object_prototype)"

definition props_set :: "propval Dict \<Rightarrow> string \<Rightarrow> propval \<Rightarrow> propval Dict" where
  "props_set ps k v = (if k = ''__proto__'' then ps else dict_set ps k v)"

text \<open>
  A virtual node. \<open>ident\<close> is the identity of the object (the set \<open>closed\<close> of the parser
  holds objects, not values); \<open>props\<close> is \<open>None\<close> for \<open>null\<close>; \<open>static\<close> and
  \<open>nodeValue\<close> are \<open>None\<close> while they are \<open>undefined\<close>.
\<close>

datatype VNode =
  VNode (ident: nat) (type: string) (props: "propval Dict option") (children: "VNode list")
        (static: "bool option") (nodeValue: "string option")

text \<open>
  The node-construction function \<open>h\<close> and the \<open>append\<close> method of its nodes belong to
  the host library. They are taken to be the plain ones: a call \<open>h(type, props, text)\<close>
  (\<open>call_h\<close>) makes a new object with no children, whose \<open>nodeValue\<close> is the text it
  is given, and \<open>append\<close> (\<open>append_vn\<close>) adds one child at the end.
\<close>

definition call_h :: "nat \<Rightarrow> string \<Rightarrow> propval Dict option \<Rightarrow> string option \<Rightarrow> VNode" where
  "call_h i t p txt = VNode i t p [] None txt"

definition append_vn :: "VNode \<Rightarrow> VNode \<Rightarrow> VNode" where
  "append_vn container vn =
     VNode (ident container) (type container) (props container) (children container @ [vn])
           (static container) (nodeValue container)"

section \<open>The tag tree builder\<close>

text \<open>The errors: the one of \<open>parse\<close>, the ones of the engine, and what a function of
  the caller throws.\<close>

datatype error = NoOpeningTag string | TypeError | SyntaxError | Thrown string

text \<open>\<open>grp m k\<close> is the element \<open>m[k]\<close> of a match array.\<close>

definition grp :: "regmatch \<Rightarrow> nat \<Rightarrow> string option" where
  "grp m k =
     (if k = 0 then Some (matched m)
      else if k - 1 < length (groups m) then groups m ! (k - 1) else None)"

text \<open>The string a value is read as where a string is needed (as a property key, or in
  a template literal).\<close>

definition to_string :: "string option \<Rightarrow> string" where
  "to_string v = (case v of Some s \<Rightarrow> s | None \<Rightarrow> ''undefined'')"

text \<open>A string is true in a condition when it is defined and not empty.\<close>

definition truthy :: "string option \<Rightarrow> bool" where
  "truthy v = (case v of Some s \<Rightarrow> s \<noteq> [] | None \<Rightarrow> False)"

definition trim :: "string \<Rightarrow> string" where
  "trim s = rev (dropWhile (\<lambda>x. x \<in> set ws) (rev (dropWhile (\<lambda>x. x \<in> set ws) s)))"

text \<open>
  \<open>findAll\<close> is only called with the global pattern \<open>regex.attributes\<close>, whose
  \<open>lastIndex\<close> is 0 before the first call and after the last one; the second argument
  is that \<open>lastIndex\<close>. The result is the array \<open>matches\<close>.
\<close>

function findAll :: "string \<Rightarrow> nat \<Rightarrow> regmatch list" where
  "findAll str lastIndex =
     (case exec_from attributes str lastIndex of
        None \<Rightarrow> []
      | Some m \<Rightarrow> m # findAll str (index m + length (matched m)))"
  by pat_completeness auto
termination
proof (relation "measure (\<lambda>(str, lastIndex). Suc (length str) - lastIndex)")
  fix str lastIndex m
  assume "exec_from attributes str lastIndex = Some m"
  from exec_from_progress[OF this consuming_pats(2)]
  show "((str, index m + length (matched m)), (str, lastIndex))
          \<in> measure (\<lambda>(str, lastIndex). Suc (length str) - lastIndex)"
    by auto
qed simp

declare findAll.simps [simp del]

definition parseProps :: "string \<Rightarrow> propval Dict" where
  "parseProps propString =
     foldl (\<lambda>props pair.
              props_set props (to_string (grp pair 1))
                (if truthy (grp pair 2) then PStr (to_string (grp pair 2)) else PTrue))
           [] (findAll propString 0)"

text \<open>The stack is a list with its top first; \<open>fresh\<close> is the identity of the next
  object that \<open>h\<close> makes.\<close>

record pstate =
  stack :: "VNode list"
  closed :: "nat set"
  fresh :: nat

definition push_text :: "string \<Rightarrow> pstate \<Rightarrow> pstate" where
  "push_text raw st =
     (let textContent = trim raw in
      if textContent \<noteq> []
      then st\<lparr>stack := call_h (fresh st) ''#text'' None (Some textContent) # stack st,
              fresh := Suc (fresh st)\<rparr>
      else st)"

text \<open>The text in front of the next tag, or the whole rest when there is no tag.\<close>

definition text_before :: "string \<Rightarrow> regmatch option \<Rightarrow> pstate \<Rightarrow> pstate" where
  "text_before html nextTag st =
     (case nextTag of
        None \<Rightarrow> push_text html st
      | Some m \<Rightarrow> if index m \<noteq> 0 then push_text (take (index m) html) st else st)"

definition open_tag :: "regmatch \<Rightarrow> pstate \<Rightarrow> pstate" where
  "open_tag openingTag' st =
     (let vn = call_h (fresh st) (to_string (grp openingTag' 1))
                 (Some (if truthy (grp openingTag' 2)
                        then parseProps (to_string (grp openingTag' 2)) else []))
                 None
      in st\<lparr>stack := vn # stack st,
             closed := (if truthy (grp openingTag' 3) then insert (ident vn) (closed st)
                        else closed st),
             fresh := Suc (fresh st)\<rparr>)"

text \<open>The inner loop of a closing tag: the nodes above the container are moved from
  the stack to the front of \<open>content\<close>.\<close>

fun unwind :: "string option \<Rightarrow> nat set \<Rightarrow> VNode list \<Rightarrow> VNode list
                 \<Rightarrow> VNode list \<times> VNode list" where
  "unwind name cl [] content = ([], content)"
| "unwind name cl (cur # st) content =
     (if Some (type cur) \<noteq> name \<or> ident cur \<in> cl
      then unwind name cl st (cur # content)
      else (cur # st, content))"

definition close_tag :: "regmatch \<Rightarrow> pstate \<Rightarrow> error + pstate" where
  "close_tag nextTag st =
     (case unwind (grp nextTag 1) (closed st) (stack st) [] of
        ([], content) \<Rightarrow> Inl (NoOpeningTag (matched nextTag))
      | (container # rest, content) \<Rightarrow>
          Inr (st\<lparr>stack := foldl append_vn container content # rest,
                  closed := insert (ident container) (closed st)\<rparr>))"

definition tag :: "regmatch \<Rightarrow> pstate \<Rightarrow> error + pstate" where
  "tag nextTag st =
     (case exec openingTag (matched nextTag) of
        Some openingTag' \<Rightarrow> Inr (open_tag openingTag' st)
      | None \<Rightarrow> close_tag nextTag st)"

function parse_loop :: "string \<Rightarrow> pstate \<Rightarrow> error + VNode list" where
  "parse_loop html st =
     (if html = [] then Inr (rev (stack st))
      else case exec anyTag html of
             None \<Rightarrow> Inr (rev (stack (text_before html None st)))
           | Some nextTag \<Rightarrow>
               (case tag nextTag (text_before html (Some nextTag) st) of
                  Inl e \<Rightarrow> Inl e
                | Inr st' \<Rightarrow>
                    parse_loop (drop (index nextTag + length (matched nextTag)) html) st'))"
  by pat_completeness auto
termination
proof (relation "measure (\<lambda>(html, st). length html)")
  fix html :: string and st :: pstate and nextTag st'
  assume "html \<noteq> []" and "exec anyTag html = Some nextTag"
  from exec_from_progress[OF this(2)[unfolded exec_def] consuming_pats(1)] this(1)
  show "((drop (index nextTag + length (matched nextTag)) html, st'), (html, st))
          \<in> measure (\<lambda>(html, st). length html)"
    by auto
qed simp

declare parse_loop.simps [simp del]

definition parse :: "string \<Rightarrow> error + VNode list" where
  "parse html = parse_loop html \<lparr>stack = [], closed = {}, fresh = 0\<rparr>"

section \<open>Patterns of the caller\<close>

text \<open>
  \<open>interpolationRegex\<close> and \<open>dataBindingRegex\<close> are \<open>RegExp\<close> objects of the
  caller. Such an object is modelled by its identity \<open>oid\<close> (the two options may be one
  object), by what its matcher answers for a string and a start position (\<open>rexec\<close>: the
  first match at or after the position), and by its flags \<open>g\<close> and \<open>y\<close>. Its
  property \<open>lastIndex\<close> is state: a \<open>store\<close> gives the \<open>lastIndex\<close> of every
  object.

  \<open>js_exec\<close> is the search of the built-in \<open>exec\<close>: no match when the start is beyond
  the end, and a match never starts before the start. With the flag \<open>y\<close> a match must
  start at the start position itself (\<open>match_at\<close>).
\<close>

type_synonym store = "nat \<Rightarrow> nat"

record RegExp =
  oid :: nat
  rexec :: "string \<Rightarrow> nat \<Rightarrow> regmatch option"
  global :: bool
  sticky :: bool

definition js_exec :: "(string \<Rightarrow> nat \<Rightarrow> regmatch option) \<Rightarrow> string \<Rightarrow> nat \<Rightarrow> regmatch option" where
  "js_exec ex s i =
     (if length s < i then None
      else case ex s i of
             Some m \<Rightarrow> if i \<le> index m then Some m else None
           | None \<Rightarrow> None)"

definition match_at :: "RegExp \<Rightarrow> string \<Rightarrow> nat \<Rightarrow> regmatch option" where
  "match_at rx s i =
     (case js_exec (rexec rx) s i of
        None \<Rightarrow> None
      | Some m \<Rightarrow> if sticky rx \<and> index m \<noteq> i then None else Some m)"

text \<open>
  \<open>rx.exec(s)\<close>. A pattern with the flag \<open>g\<close> or \<open>y\<close> starts at its \<open>lastIndex\<close>
  and sets it to the end of the match, or to 0 when there is none; a pattern without
  these flags starts at 0 and leaves \<open>lastIndex\<close> as it is.
\<close>

definition exec_rx :: "RegExp \<Rightarrow> string \<Rightarrow> store \<Rightarrow> regmatch option \<times> store" where
  "exec_rx rx s st =
     (if global rx \<or> sticky rx
      then (case match_at rx s (st (oid rx)) of
              None \<Rightarrow> (None, st(oid rx := 0))
            | Some m \<Rightarrow> (Some m, st(oid rx := index m + length (matched m))))
      else (match_at rx s 0, st))"

text \<open>\<open>s.search(rx)\<close>: the index of the first match from 0, or -1. It puts
  \<open>lastIndex\<close> back to what it was.\<close>

definition search :: "RegExp \<Rightarrow> string \<Rightarrow> int" where
  "search rx s = (case match_at rx s 0 of None \<Rightarrow> - 1 | Some m \<Rightarrow> int (index m))"

text \<open>The loop of \<open>s.replace(rx, f)\<close> with a global pattern: \<open>ex\<close> is the search,
  \<open>i\<close> is \<open>lastIndex\<close>, which steps over an empty match, and \<open>pos\<close> is the end of the
  text already copied.\<close>

function replace_all :: "(string \<Rightarrow> nat \<Rightarrow> regmatch option) \<Rightarrow> (regmatch \<Rightarrow> string)
                           \<Rightarrow> string \<Rightarrow> nat \<Rightarrow> nat \<Rightarrow> string" where
  "replace_all ex f s i pos =
     (case js_exec ex s i of
        None \<Rightarrow> drop pos s
      | Some m \<Rightarrow>
          (if pos \<le> index m
           then take (index m - pos) (drop pos s) @ f m @
                replace_all ex f s
                  (if matched m = [] then Suc (index m) else index m + length (matched m))
                  (index m + length (matched m))
           else replace_all ex f s
                  (if matched m = [] then Suc (index m) else index m + length (matched m))
                  pos))"
  by pat_completeness auto
termination
  by (relation "measure (\<lambda>(ex, f, s, i, pos). Suc (length s) - i)")
     (auto simp: js_exec_def neq_Nil_conv split: if_splits option.splits)

declare replace_all.simps [simp del]

text \<open>\<open>s.replace(rx, f)\<close>. A global pattern starts at 0 whatever its \<open>lastIndex\<close>
  was, and ends with \<open>lastIndex\<close> 0; another pattern is tried once, by \<open>exec\<close>.\<close>

definition replace :: "RegExp \<Rightarrow> (regmatch \<Rightarrow> string) \<Rightarrow> string \<Rightarrow> store \<Rightarrow> string \<times> store" where
  "replace rx f s st =
     (if global rx then (replace_all (match_at rx) f s 0 0, st(oid rx := 0))
      else case exec_rx rx s st of
             (None, st') \<Rightarrow> (s, st')
           | (Some m, st') \<Rightarrow>
               (take (index m) s @ f m @ drop (index m + length (matched m)) s, st'))"

text \<open>A pattern of the pattern datatype as the \<open>RegExp\<close> object \<open>n\<close>, with or
  without the flag \<open>g\<close>.\<close>

definition regexp :: "nat \<Rightarrow> re \<Rightarrow> bool \<Rightarrow> RegExp" where
  "regexp n r g = \<lparr>oid = n, rexec = exec_from r, global = g, sticky = False\<rparr>"

section \<open>Compiler options\<close>

text \<open>
  The generated props may hold a random key: \<open>Math.random\<close> is a supply of texts, the
  \<open>n\<close>-th being the decimal text of the \<open>n\<close>-th random number that \<open>compileProps\<close>
  draws, without its first two characters. Code generation threads the supply and the
  \<open>lastIndex\<close> of the patterns.
\<close>

type_synonym rng = "nat \<Rightarrow> string"

record cstate =
  rnd :: rng
  lastIndex :: store

text \<open>
  What code generation returns is a string, or whatever a directive handler has returned.
  Such a value is kept as the string it is read as; \<open>undefined\<close> and \<open>null\<close>
  (\<open>Nullish\<close>) are apart, since \<open>join\<close> reads them as the empty string.
\<close>

datatype jsout = Str string | Nullish string

definition joined :: "jsout \<Rightarrow> string" where
  "joined v = (case v of Str s \<Rightarrow> s | Nullish n \<Rightarrow> [])"

definition out_text :: "jsout \<Rightarrow> string" where
  "out_text v = (case v of Str s \<Rightarrow> s | Nullish n \<Rightarrow> n)"

text \<open>
  A directive handler is a function of the caller that gets the value of the prop and
  the continuation \<open>renderRest\<close>. It is modelled by what it does with them: for the
  value it gives a program that either is done, with what the handler returns or throws
  (\<open>Done\<close>), or calls the continuation and goes on with what the call has returned or
  thrown (\<open>Rest\<close>). A handler acts on the compiler through these calls only.
\<close>

datatype prog = Done "error + jsout" | Rest "error + jsout \<Rightarrow> prog"

type_synonym handler = "propval \<Rightarrow> prog"

text \<open>
  The object \<open>directives\<close>: its own enumerable properties, which are functions, in the
  order of \<open>Object.keys\<close>, and the members it finds through its prototype chain (those
  of \<open>Object.prototype\<close> for an object literal: \<open>constructor\<close>, \<open>toString\<close>, ...),
  each a function or a value that cannot be called (\<open>None\<close>). \<open>in_directives\<close> is
  the operator \<open>in\<close>, and \<open>member\<close> is \<open>directives[prop]\<close> as something to call.
\<close>

record Directives =
  own_members :: "handler Dict"
  inherited_members :: "handler option Dict"

definition in_directives :: "string \<Rightarrow> Directives \<Rightarrow> bool" where
  "in_directives k ds = (dict_in k (own_members ds) \<or> dict_in k (inherited_members ds))"

definition member :: "Directives \<Rightarrow> string \<Rightarrow> handler option" where
  "member ds k =
     (case map_of (own_members ds) k of
        Some handler' \<Rightarrow> Some handler'
      | None \<Rightarrow> (case map_of (inherited_members ds) k of
                   Some m \<Rightarrow> m
                 | None \<Rightarrow> None))"

text \<open>Values and objects of the render scope: \<open>'f\<close> are the functions of the host.\<close>

datatype 'f jsval = Undefined | Prim string | Fun 'f | Bound 'f "'f obj"
and 'f obj = Obj (own: "(string \<times> 'f jsval) list") (proto: "'f obj option")

record 'f CompilerOptions =
  h :: "'f jsval"
  directives :: Directives
  interpolationRegex :: RegExp
  dataBindingRegex :: RegExp

section \<open>The static analyzer\<close>

text \<open>\<open>Object.keys(directives).every(d => !(d in vn.props))\<close>: with no directive the
  props are not read; \<open>in\<close> throws on \<open>null\<close>.\<close>

definition no_directives :: "Directives \<Rightarrow> propval Dict option \<Rightarrow> error + bool" where
  "no_directives ds p =
     (if own_members ds = [] then Inr True
      else case p of
             None \<Rightarrow> Inl TypeError
           | Some ps \<Rightarrow> Inr (list_all (\<lambda>d. \<not> props_in d ps) (map fst (own_members ds))))"

text \<open>\<open>keys.every(p => !dataBindingRegex.exec(p))\<close>: the keys are tried in their
  order up to the first one that matches.\<close>

fun every_key :: "RegExp \<Rightarrow> string list \<Rightarrow> store \<Rightarrow> bool \<times> store" where
  "every_key rx [] st = (True, st)"
| "every_key rx (p # ps) st =
     (case exec_rx rx p st of
        (Some m, st') \<Rightarrow> (False, st')
      | (None, st') \<Rightarrow> every_key rx ps st')"

text \<open>\<open>Object.keys(vn.props).every(...)\<close>: \<open>Object.keys\<close> throws on \<open>null\<close>.\<close>

definition no_bindings :: "RegExp \<Rightarrow> propval Dict option \<Rightarrow> store \<Rightarrow> (error + bool) \<times> store" where
  "no_bindings rx p st =
     (case p of
        None \<Rightarrow> (Inl TypeError, st)
      | Some ps \<Rightarrow> (case every_key rx (map fst ps) st of (b, st') \<Rightarrow> (Inr b, st')))"

text \<open>
  \<open>detectStaticNodes\<close> returns what the source returns or throws, the node as it has
  changed it (also when it throws), and the \<open>lastIndex\<close> of the patterns. \<open>every_child\<close> is
  \<open>children.every(c => detectStaticNodes(c, options))\<close>, which stops at the first child
  that is not static.
\<close>

fun detectStaticNodes :: "VNode \<Rightarrow> 'f CompilerOptions \<Rightarrow> store \<Rightarrow> (error + bool) \<times> VNode \<times> store"
and every_child :: "VNode list \<Rightarrow> 'f CompilerOptions \<Rightarrow> store
                      \<Rightarrow> (error + bool) \<times> VNode list \<times> store" where
  "detectStaticNodes (VNode i t p cs st nv) options s =
     (if t = ''#text''
      then (let b = (case nv of
                       None \<Rightarrow> True
                     | Some v \<Rightarrow> search (interpolationRegex options) v = 0)
            in (Inr b, VNode i t p cs (Some b) nv, s))
      else case no_directives (directives options) p of
             Inl e \<Rightarrow> (Inl e, VNode i t p cs st nv, s)
           | Inr False \<Rightarrow> (Inr False, VNode i t p cs (Some False) nv, s)
           | Inr True \<Rightarrow>
               (case every_child cs options s of
                  (Inl e, cs', s') \<Rightarrow> (Inl e, VNode i t p cs' st nv, s')
                | (Inr False, cs', s') \<Rightarrow> (Inr False, VNode i t p cs' (Some False) nv, s')
                | (Inr True, cs', s') \<Rightarrow>
                    (case no_bindings (dataBindingRegex options) p s' of
                       (Inl e, s'') \<Rightarrow> (Inl e, VNode i t p cs' st nv, s'')
                     | (Inr b, s'') \<Rightarrow> (Inr b, VNode i t p cs' (Some b) nv, s''))))"
| "every_child [] options s = (Inr True, [], s)"
| "every_child (c # cs) options s =
     (case detectStaticNodes c options s of
        (Inl e, c', s') \<Rightarrow> (Inl e, c' # cs, s')
      | (Inr False, c', s') \<Rightarrow> (Inr False, c' # cs, s')
      | (Inr True, c', s') \<Rightarrow>
          (case every_child cs options s' of (r, cs', s'') \<Rightarrow> (r, c' # cs', s'')))"

section \<open>The code generator\<close>

definition quote :: string where
  "quote = [CHR 0x27]"

fun join :: "string \<Rightarrow> string list \<Rightarrow> string" where
  "join sep [] = []"
| "join sep [x] = x"
| "join sep (x # xs) = x @ sep @ join sep xs"

text \<open>A prop value inside a template literal.\<close>

definition text_of :: "propval \<Rightarrow> string" where
  "text_of v = (case v of PStr s \<Rightarrow> s | PTrue \<Rightarrow> ''true'')"

text \<open>The decimal text of a number.\<close>

function number_text :: "nat \<Rightarrow> string" where
  "number_text n =
     (if n < 10 then [''0123456789'' ! n]
      else number_text (n div 10) @ [''0123456789'' ! (n mod 10)])"
  by pat_completeness auto
termination
  by (relation "measure id") auto

declare number_text.simps [simp del]

text \<open>
  The replacer \<open>(m, c1) => ...\<close> of \<open>parseInterpolations\<close>: its second argument is the
  first capture of the match, or, for a pattern without a capture, the offset of the
  match.
\<close>

definition replacer :: "regmatch \<Rightarrow> string" where
  "replacer m =
     quote @ '' + '' @
     (case groups m of [] \<Rightarrow> number_text (index m) | c1 # others \<Rightarrow> to_string c1) @
     '' + '' @ quote"

definition parseInterpolations :: "string \<Rightarrow> RegExp \<Rightarrow> store \<Rightarrow> string \<times> store" where
  "parseInterpolations src interpolationRegex' st = replace interpolationRegex' replacer src st"

text \<open>\<open>keys.some(p => ...)\<close> of \<open>compileProps\<close>: the keys are tried in their order up
  to the first one that stands for \<open>key\<close>; the key \<open>key\<close> itself is not given to the
  pattern.\<close>

fun hasKey :: "RegExp \<Rightarrow> string list \<Rightarrow> store \<Rightarrow> bool \<times> store" where
  "hasKey rx [] st = (False, st)"
| "hasKey rx (p # ps) st =
     (if p = ''key'' then (True, st)
      else case exec_rx rx p st of
             (Some binding, st') \<Rightarrow>
               if grp binding 1 = Some ''key'' then (True, st') else hasKey rx ps st'
           | (None, st') \<Rightarrow> hasKey rx ps st')"

text \<open>\<open>Object.entries(props).map(...)\<close>: the entries of the literal, one \<open>exec\<close> for
  each prop.\<close>

fun entries :: "RegExp \<Rightarrow> propval Dict \<Rightarrow> store \<Rightarrow> string list \<times> store" where
  "entries rx [] st = ([], st)"
| "entries rx (pair # ps) st =
     (case exec_rx rx (fst pair) st of
        (dataBinding, st') \<Rightarrow>
          (case entries rx ps st' of
             (es, st'') \<Rightarrow>
               ((case dataBinding of
                   Some m \<Rightarrow> to_string (grp m 1) @ '': '' @ text_of (snd pair)
                 | None \<Rightarrow> fst pair @ '': '' @ quote @ text_of (snd pair) @ quote) # es,
                st'')))"

text \<open>\<open>{...props}\<close> of \<open>null\<close> is the empty object. A key is drawn from the supply
  only when no prop stands for \<open>key\<close>.\<close>

definition compileProps :: "propval Dict option \<Rightarrow> 'f CompilerOptions \<Rightarrow> cstate \<Rightarrow> string \<times> cstate" where
  "compileProps p options s =
     (let ps = (case p of None \<Rightarrow> [] | Some d \<Rightarrow> d) in
      case hasKey (dataBindingRegex options) (map fst ps) (lastIndex s) of
        (found, st1) \<Rightarrow>
          (case entries (dataBindingRegex options)
                  (if found then ps else dict_set ps ''key'' (PStr (''y-key-'' @ rnd s 0))) st1 of
             (es, st2) \<Rightarrow>
               (''{'' @ join '','' es @ ''}'',
                \<lparr>rnd = (if found then rnd s else (\<lambda>n. rnd s (Suc n))), lastIndex = st2\<rparr>)))"

text \<open>The first prop, in the order of \<open>for ... in\<close>, that is \<open>in\<close> the directives,
  with its value and what \<open>directives[prop]\<close> is. There is no iteration over
  \<open>null\<close>.\<close>

definition first_directive :: "propval Dict option \<Rightarrow> Directives
                                 \<Rightarrow> (string \<times> propval \<times> handler option) option" where
  "first_directive p ds =
     (case p of
        None \<Rightarrow> None
      | Some ps \<Rightarrow>
          (case find (\<lambda>pair. in_directives (fst pair) ds) ps of
             None \<Rightarrow> None
           | Some (prop, val) \<Rightarrow> Some (prop, val, member ds prop)))"

text \<open>\<open>delete vn.props[prop]\<close>.\<close>

definition delete_prop :: "VNode \<Rightarrow> string \<Rightarrow> VNode" where
  "delete_prop vn prop =
     VNode (ident vn) (type vn) (map_option (\<lambda>ps. dict_delete ps prop) (props vn))
           (children vn) (static vn) (nodeValue vn)"

text \<open>The node with its children as code generation has left them.\<close>

definition with_children :: "VNode \<Rightarrow> VNode list \<Rightarrow> VNode" where
  "with_children vn cs = VNode (ident vn) (type vn) (props vn) cs (static vn) (nodeValue vn)"

text \<open>The measure of the recursion of \<open>compileNode\<close>: the nodes and their props.\<close>

fun weight :: "VNode \<Rightarrow> nat" where
  "weight (VNode i t p cs st nv) =
     Suc ((case p of None \<Rightarrow> 0 | Some ps \<Rightarrow> length ps) + sum_list (map weight cs))"

lemma detectStaticNodes_weight:
  "detectStaticNodes vn (options :: 'f CompilerOptions) s = (r, vn', s') \<Longrightarrow> weight vn' = weight vn"
  "every_child cs (options :: 'f CompilerOptions) s = (r, cs', s') \<Longrightarrow>
     sum_list (map weight cs') = sum_list (map weight cs)"
proof (induction vn options s and cs options s arbitrary: r vn' s' and r cs' s'
       rule: detectStaticNodes_every_child.induct)
  case (1 i t p cs st nv options s)
  then show ?case
    by (auto simp: Let_def split: if_splits sum.splits bool.splits prod.splits)
next
  case (2 options s)
  then show ?case by simp
next
  case (3 c cs options s)
  then show ?case
    by (auto split: if_splits sum.splits bool.splits prod.splits)
qed

lemma dict_delete_shorter: "dict_in k d \<Longrightarrow> length (dict_delete d k) < length d"
proof -
  assume "dict_in k d"
  then obtain v where "(k, v) \<in> set d" by (auto simp: dict_in_def)
  then show ?thesis
    unfolding dict_delete_def by (rule length_filter_less) simp
qed

lemma find_Some_holds: "find P xs = Some x \<Longrightarrow> P x \<and> x \<in> set xs"
  by (induction xs) (auto split: if_splits)

lemma first_directive_weight:
  "first_directive (props vn) ds = Some (prop, val, hd') \<Longrightarrow> weight (delete_prop vn prop) < weight vn"
proof (cases vn)
  case (VNode i t p cs st nv)
  assume fd: "first_directive (props vn) ds = Some (prop, val, hd')"
  then obtain ps where p: "p = Some ps" and f: "find (\<lambda>pair. in_directives (fst pair) ds) ps = Some (prop, val)"
    using VNode by (auto simp: first_directive_def split: option.splits)
  from find_Some_holds[OF f] have "(prop, val) \<in> set ps" by simp
  then have "dict_in prop ps" by (force simp: dict_in_def)
  from dict_delete_shorter[OF this] VNode p show ?thesis
    by (simp add: delete_prop_def)
qed

text \<open>A program of a handler is made of the programs it goes on with.\<close>

definition sub_prog :: "(prog \<times> prog) set" where
  "sub_prog = {(p, q). \<exists>k r. q = Rest k \<and> p = k r}"

lemma wf_sub_prog: "wf sub_prog"
proof (rule wfUNIVI)
  fix P :: "prog \<Rightarrow> bool" and x
  assume a: "\<forall>x. (\<forall>y. (y, x) \<in> sub_prog \<longrightarrow> P y) \<longrightarrow> P x"
  show "P x"
  proof (induction x)
    case (Done r)
    from a show ?case by (auto simp: sub_prog_def)
  next
    case (Rest k)
    have "\<forall>y. (y, Rest k) \<in> sub_prog \<longrightarrow> P y"
      using Rest by (auto simp: sub_prog_def)
    with a show ?case by blast
  qed
qed

text \<open>
  Code generation never adds a prop or a child to a node (lemma \<open>compileNode_weight\<close>
  below). The recursion rests on it: the node that a continuation finds is the node as
  its last call has left it, \<open>later n' n\<close>, which is \<open>n'\<close>.
\<close>

definition later :: "VNode \<Rightarrow> VNode \<Rightarrow> VNode" where
  "later n' n = (if weight n' \<le> weight n then n' else n)"

text \<open>
  \<open>compileNode\<close> returns what the source returns or throws, the node as it has changed
  it, and the state. \<open>compileChildren\<close> is \<open>children.map(c => compileNode(c,
  options))\<close>. \<open>run p n\<close> is the call of a handler whose program is \<open>p\<close>, for the node
  \<open>n\<close> without the prop of the directive: each call of the continuation
  \<open>() => compileNode(vn, options)\<close> generates the code of the node as it is at that
  time.
\<close>

function compileNode :: "VNode \<Rightarrow> 'f CompilerOptions \<Rightarrow> cstate \<Rightarrow> (error + jsout) \<times> VNode \<times> cstate"
and compileChildren :: "VNode list \<Rightarrow> 'f CompilerOptions \<Rightarrow> cstate
                          \<Rightarrow> (error + jsout list) \<times> VNode list \<times> cstate"
and run :: "prog \<Rightarrow> VNode \<Rightarrow> 'f CompilerOptions \<Rightarrow> cstate \<Rightarrow> (error + jsout) \<times> VNode \<times> cstate" where
  "compileNode vn options s =
     (if type vn = ''#text''
      then (case nodeValue vn of
              None \<Rightarrow> (Inl TypeError, vn, s)
            | Some v \<Rightarrow>
                (case parseInterpolations v (interpolationRegex options) (lastIndex s) of
                   (txt, st') \<Rightarrow>
                     (Inr (Str (''h('#text', null, '' @ quote @ txt @ quote @ '')'')),
                      vn, s\<lparr>lastIndex := st'\<rparr>)))
      else case detectStaticNodes vn options (lastIndex s) of
             (Inl e, vn', st') \<Rightarrow> (Inl e, vn', s\<lparr>lastIndex := st'\<rparr>)
           | (Inr b, vn', st') \<Rightarrow>
               (case first_directive (props vn') (directives options) of
                  Some (prop, val, m) \<Rightarrow>
                    (case m of
                       None \<Rightarrow> (Inl TypeError, delete_prop vn' prop, s\<lparr>lastIndex := st'\<rparr>)
                     | Some handler' \<Rightarrow>
                         run (handler' val) (delete_prop vn' prop) options (s\<lparr>lastIndex := st'\<rparr>))
                | None \<Rightarrow>
                    (case compileProps (props vn') options (s\<lparr>lastIndex := st'\<rparr>) of
                       (propsCode, s1) \<Rightarrow>
                         (case compileChildren (children vn') options s1 of
                            (Inl e, cs', s2) \<Rightarrow> (Inl e, with_children vn' cs', s2)
                          | (Inr codes, cs', s2) \<Rightarrow>
                              (Inr (Str (''h('' @ quote @ type vn' @ quote @ '','' @ propsCode @
                                         '',['' @ join '','' (map joined codes) @ ''])'')),
                               with_children vn' cs', s2)))))"
| "compileChildren [] options s = (Inr [], [], s)"
| "compileChildren (c # cs) options s =
     (case compileNode c options s of
        (Inl e, c', s1) \<Rightarrow> (Inl e, c' # cs, s1)
      | (Inr code, c', s1) \<Rightarrow>
          (case compileChildren cs options s1 of
             (Inl e, cs', s2) \<Rightarrow> (Inl e, c' # cs', s2)
           | (Inr codes, cs', s2) \<Rightarrow> (Inr (code # codes), c' # cs', s2)))"
| "run (Done r) n options s = (r, n, s)"
| "run (Rest k) n options s =
     (case compileNode n options s of
        (r, n', s') \<Rightarrow> run (k r) (later n' n) options s')"
  by pat_completeness auto
termination
  apply (relation "inv_image (less_than <*lex*> sub_prog)
           (\<lambda>x. case x of
                  Inl (vn, options, s) \<Rightarrow> (3 * weight vn, Done (Inl TypeError))
                | Inr (Inl (cs, options, s)) \<Rightarrow> (Suc (3 * sum_list (map weight cs)), Done (Inl TypeError))
                | Inr (Inr (p, n, options, s)) \<Rightarrow> (Suc (3 * weight n), p))")
  subgoal by (intro wf_inv_image wf_lex_prod wf_less_than wf_sub_prog)
  subgoal for vn options s x y b xa ya xb yb
    using detectStaticNodes_weight(1)[of vn options "lastIndex s" x xa ya] by (cases xa) auto
  subgoal for vn options s x y b xa ya x2 xb yb xc yc x2a
    using detectStaticNodes_weight(1)[of vn options "lastIndex s" x xa ya]
      first_directive_weight[of xa "directives options" xb xc yc]
    by auto
  subgoal for c cs by (cases c) auto
  subgoal for c cs by (cases c) auto
  subgoal by simp
  subgoal for k n options s x y xa ya
    by (cases "weight xa < weight n") (auto simp: later_def sub_prog_def)
  done

declare compileNode.simps [simp del]

lemma compileNode_weight:
  "compileNode vn (options :: 'f CompilerOptions) s = (r, vn', s') \<Longrightarrow> weight vn' \<le> weight vn"
  "compileChildren cs (options :: 'f CompilerOptions) s = (rs, cs', s') \<Longrightarrow>
     sum_list (map weight cs') \<le> sum_list (map weight cs)"
  "run p n (options :: 'f CompilerOptions) s = (r, n', s') \<Longrightarrow> weight n' \<le> weight n"
proof (induction vn options s and cs options s and p n options s
       arbitrary: r vn' s' and rs cs' s' and r n' s'
       rule: compileNode_compileChildren_run.induct)
  case (1 vn options s)
  obtain x xa ya where d: "detectStaticNodes vn options (lastIndex s) = (x, xa, ya)"
    by (metis prod_cases3)
  from detectStaticNodes_weight(1)[OF d] have w: "weight xa = weight vn" .
  show ?case
  proof (cases "type vn = ''#text''")
    case True
    with 1(3) show ?thesis
      by (subst (asm) compileNode.simps) (auto split: option.splits prod.splits)
  next
    case False
    show ?thesis
    proof (cases x)
      case (Inl e)
      with 1(3) False d w show ?thesis
        by (subst (asm) compileNode.simps) auto
    next
      case (Inr b)
      show ?thesis
      proof (cases "first_directive (props xa) (directives options)")
        case None
        obtain pc s1 where cp: "compileProps (props xa) options (s\<lparr>lastIndex := ya\<rparr>) = (pc, s1)"
          by fastforce
        obtain rs cs' s2 where cc: "compileChildren (children xa) options s1 = (rs, cs', s2)"
          by (metis prod_cases3)
        have "sum_list (map weight cs') \<le> sum_list (map weight (children xa))"
          using 1(1)[OF False d[symmetric] Inr refl None cp[symmetric] cc] .
        then have "weight (with_children xa cs') \<le> weight xa"
          by (cases xa) (simp add: with_children_def)
        with 1(3) False d w Inr None cp cc show ?thesis
          by (subst (asm) compileNode.simps) (auto split: sum.splits)
      next
        case (Some x2)
        obtain pr va m where x2: "x2 = (pr, va, m)" by (metis prod_cases3)
        from first_directive_weight[OF Some[unfolded x2]]
        have lt: "weight (delete_prop xa pr) < weight xa" .
        show ?thesis
        proof (cases m)
          case None
          with 1(3) False d w Inr Some x2 lt show ?thesis
            by (subst (asm) compileNode.simps) auto
        next
          case (Some handler')
          from 1(3) False d Inr \<open>first_directive (props xa) (directives options) = Some x2\<close> x2 Some
          have "run (handler' va) (delete_prop xa pr) options (s\<lparr>lastIndex := ya\<rparr>) = (r, vn', s')"
            by (subst (asm) compileNode.simps) auto
          from 1(2)[OF False d[symmetric] Inr refl
              \<open>first_directive (props xa) (directives options) = Some x2\<close> x2[symmetric] refl Some this]
          show ?thesis using lt w by simp
        qed
      qed
    qed
  qed
next
  case (2 options s)
  then show ?case by simp
next
  case (3 c cs options s)
  obtain x c' s1 where cn: "compileNode c options s = (x, c', s1)" by (metis prod_cases3)
  from 3(1)[OF cn] have wc: "weight c' \<le> weight c" .
  show ?case
  proof (cases x)
    case (Inl e)
    with 3(3) cn wc show ?thesis by auto
  next
    case (Inr code)
    obtain y cs1 s2 where cc: "compileChildren cs options s1 = (y, cs1, s2)" by (metis prod_cases3)
    from 3(2)[OF cn[symmetric] Inr refl cc] have "sum_list (map weight cs1) \<le> sum_list (map weight cs)" .
    with 3(3) cn wc Inr cc show ?thesis by (auto split: sum.splits)
  qed
next
  case (4 r0 n options s)
  then show ?case by simp
next
  case (5 k n options s)
  obtain x n1 s1 where cn: "compileNode n options s = (x, n1, s1)" by (metis prod_cases3)
  have l: "weight (later n1 n) \<le> weight n" by (simp add: later_def)
  from 5(3) cn have "run (k x) (later n1 n) options s1 = (r, n', s')" by simp
  from 5(2)[OF cn[symmetric] refl this] l show ?case by simp
qed

text \<open>So the node that a continuation finds is the node as the last call has left
  it.\<close>

lemma run_Rest:
  "run (Rest k) n (options :: 'f CompilerOptions) s =
     (case compileNode n options s of (r, n', s') \<Rightarrow> run (k r) n' options s')"
proof -
  obtain x n1 s1 where cn: "compileNode n options s = (x, n1, s1)" by (metis prod_cases3)
  from compileNode_weight(1)[OF cn] have "later n1 n = n1" by (simp add: later_def)
  with cn show ?thesis by simp
qed

declare run.simps(2) [simp del]

section \<open>The restricted evaluator and the compiler facade\<close>

text \<open>
  A key of a property read: a name, or the symbol \<open>Symbol.unscopables\<close>.
  \<open>lookup\<close> is \<open>target[key]\<close>: the own property, or else the one of the prototype.
\<close>

datatype key = Name string | Unscopables

fun lookup :: "'f obj \<Rightarrow> string \<Rightarrow> 'f jsval" where
  "lookup (Obj ps pr) k =
     (case map_of ps k of
        Some v \<Rightarrow> v
      | None \<Rightarrow> (case pr of None \<Rightarrow> Undefined | Some p \<Rightarrow> lookup p k))"

text \<open>The two handlers of the proxy; a function is bound to the target.\<close>

definition has :: "'f obj \<Rightarrow> key \<Rightarrow> bool" where
  "has target' k = True"

definition get :: "'f obj \<Rightarrow> key \<Rightarrow> 'f jsval" where
  "get target' k =
     (case k of
        Unscopables \<Rightarrow> Undefined
      | Name n \<Rightarrow> (case lookup target' n of Fun f \<Rightarrow> Bound f target' | v \<Rightarrow> v))"

record 'f proxy =
  target :: "'f obj"
  has_handler :: "key \<Rightarrow> bool"
  get_handler :: "key \<Rightarrow> 'f jsval"

text \<open>
  \<open>new Function("sandbox", code)\<close> is the work of the engine: \<open>js code\<close> is \<open>None\<close>
  when the code is not a function body, and otherwise what the function returns or throws
  for its argument. The proxy of a sandbox is a function of the sandbox, so the cache
  \<open>sandboxProxies\<close> is not modelled.
\<close>

type_synonym ('f, 'r) engine = "string \<Rightarrow> ('f proxy \<Rightarrow> error + 'r) option"

definition saferEval :: "('f, 'r) engine \<Rightarrow> string \<Rightarrow> error + ('f obj \<Rightarrow> error + 'r)" where
  "saferEval js code =
     (case js (''with(sandbox) {'' @ code @ ''}'') of
        None \<Rightarrow> Inl SyntaxError
      | Some func \<Rightarrow>
          Inr (\<lambda>sandbox. func \<lparr>target = sandbox, has_handler = has sandbox,
                                get_handler = get sandbox\<rparr>))"

text \<open>The receiver \<open>this\<close> of a call of the render function. \<open>Object.create\<close> throws
  unless it is given an object or \<open>null\<close>.\<close>

datatype 'f receiver = ThisUndefined | ThisNull | ThisObj "'f obj"

definition object_create :: "'f receiver \<Rightarrow> error + 'f obj" where
  "object_create this =
     (case this of
        ThisUndefined \<Rightarrow> Inl TypeError
      | ThisNull \<Rightarrow> Inr (Obj [] None)
      | ThisObj p \<Rightarrow> Inr (Obj [] (Some p)))"

definition obj_set :: "'f obj \<Rightarrow> string \<Rightarrow> 'f jsval \<Rightarrow> 'f obj" where
  "obj_set ob k v = Obj (dict_set (own ob) k v) (proto ob)"

text \<open>\<open>renderTemplate\<close>: \<open>h'\<close> is the parameter \<open>h\<close> of the render function.\<close>

definition renderTemplate :: "'f CompilerOptions \<Rightarrow> ('f obj \<Rightarrow> error + 'r) \<Rightarrow> 'f receiver
                                \<Rightarrow> 'f jsval \<Rightarrow> error + 'r" where
  "renderTemplate options innerRender this h' =
     (case object_create this of
        Inl e \<Rightarrow> Inl e
      | Inr scope \<Rightarrow> innerRender (obj_set scope ''h'' (h options)))"

text \<open>\<open>template.replace(regex.comments, '')\<close>, with the global pattern of the
  table.\<close>

definition remove_comments :: "string \<Rightarrow> string" where
  "remove_comments template = replace_all (exec_from comments) (\<lambda>m. []) template 0 0"

text \<open>\<open>compile\<close>. \<open>parse(...)[0]\<close> of an empty forest is \<open>undefined\<close>, whose
  \<open>type\<close> cannot be read.\<close>

definition compile :: "('f, 'r) engine \<Rightarrow> string \<Rightarrow> 'f CompilerOptions \<Rightarrow> cstate
                         \<Rightarrow> error + ('f receiver \<Rightarrow> 'f jsval \<Rightarrow> error + 'r)" where
  "compile js template options s =
     (case parse (remove_comments template) of
        Inl e \<Rightarrow> Inl e
      | Inr forest \<Rightarrow>
          (case forest of
             [] \<Rightarrow> Inl TypeError
           | root # others \<Rightarrow>
               (case fst (compileNode root options s) of
                  Inl e \<Rightarrow> Inl e
                | Inr code \<Rightarrow>
                    (case saferEval js (''return '' @ out_text code) of
                       Inl e \<Rightarrow> Inl e
                     | Inr innerRender \<Rightarrow> Inr (renderTemplate options innerRender)))))"

section \<open>Examples of options and nodes\<close>

text \<open>The pattern \<open>/\{\{([^{}]+)\}\}/\<close> for markers \<open>{{...}}\<close>.\<close>

definition braces :: re where
  "braces = seqs [lit ''{{'', Grp 0 (Plus (NCls ''{}'')), lit ''}}'']"

text \<open>The directive \<open>(v, rest) => "(" + v + ") ? (" + rest() + ") : null"\<close>.\<close>

definition if_directive :: handler where
  "if_directive v =
     Rest (\<lambda>r. Done (case r of
                       Inl e \<Rightarrow> Inl e
                     | Inr code \<Rightarrow>
                         Inr (Str (''('' @ text_of v @ '') ? ('' @ out_text code @ '') : null''))))"


text \<open>Options with the one directive \<open>if\<close>, in an object without prototype, and with
  two pattern objects for markers: the interpolation pattern has the flag \<open>g\<close>, the
  data-binding pattern has no flag.\<close>

definition example_options :: "nat CompilerOptions" where
  "example_options =
     \<lparr>h = Fun 0,
      directives = \<lparr>own_members = [(''if'', if_directive)], inherited_members = []\<rparr>,
      interpolationRegex = regexp 1 braces True, dataBindingRegex = regexp 2 braces False\<rparr>"

text \<open>A state for the examples: every random text is \<open>7\<close>, every \<open>lastIndex\<close> is
  0.\<close>

definition start :: cstate where
  "start = \<lparr>rnd = (\<lambda>n. ''7''), lastIndex = (\<lambda>i. 0)\<rparr>"

text \<open>An engine for the examples: the compiled function returns its own source.\<close>

definition echo :: "(nat, string) engine" where
  "echo code = Some (\<lambda>p. Inr code)"









text \<open>The patterns \<open>/(.+)/\<close>, which reads every prop as a binding, and \<open>/k(e)y/\<close>.\<close>

definition any_text :: re where
  "any_text = Grp 0 (Plus (NCls [CHR 0x0A, CHR 0x0D]))"

definition key_letter :: re where
  "key_letter = seqs [lit ''k'', Grp 0 (lit ''e''), lit ''y'']"

section \<open>Notions of the statements\<close>

text \<open>An element of the parser has props; a node of type \<open>#text\<close> need not.\<close>

fun wf_node :: "VNode \<Rightarrow> bool" where
  "wf_node (VNode i t p cs st nv) = ((t = ''#text'' \<or> p \<noteq> None) \<and> list_all wf_node cs)"

text \<open>\<open>is_static vn options s\<close>: \<open>detectStaticNodes\<close> returns true for \<open>vn\<close>.\<close>

definition is_static :: "VNode \<Rightarrow> 'f CompilerOptions \<Rightarrow> store \<Rightarrow> bool" where
  "is_static vn options s = (fst (detectStaticNodes vn options s) = Inr True)"

text \<open>\<open>loop_at n template\<close>: the rest of the text and the state at the head of the loop
  of \<open>parse\<close> after \<open>n\<close> tags, when the loop gets that far.\<close>

fun loop_at :: "nat \<Rightarrow> string \<Rightarrow> (string \<times> pstate) option" where
  "loop_at 0 template = Some (template, \<lparr>stack = [], closed = {}, fresh = 0\<rparr>)"
| "loop_at (Suc n) template =
     (case loop_at n template of
        None \<Rightarrow> None
      | Some (html, st) \<Rightarrow>
          if html = [] then None
          else case exec anyTag html of
                 None \<Rightarrow> None
               | Some nextTag \<Rightarrow>
                   (case tag nextTag (text_before html (Some nextTag) st) of
                      Inl e \<Rightarrow> None
                    | Inr st' \<Rightarrow>
                        Some (drop (index nextTag + length (matched nextTag)) html, st')))"

text \<open>No node of the stack is an unclosed node of the type \<open>name\<close>.\<close>

definition no_container :: "string option \<Rightarrow> pstate \<Rightarrow> bool" where
  "no_container name st =
     list_all (\<lambda>vn. Some (type vn) \<noteq> name \<or> ident vn \<in> closed st) (stack st)"

text \<open>A text that \<open>regex.attributes\<close> reads as one key: not empty, and without
  white space, slash, quote or equals sign.\<close>

definition attr_name :: "string \<Rightarrow> bool" where
  "attr_name k =
     (k \<noteq> [] \<and> list_all (\<lambda>x. x \<notin> set (ws @ [CHR ''/'', CHR 0x22, CHR 0x27, CHR ''=''])) k)"

text \<open>
  An attribute as it is written in a tag: its key, its value when it has the part
  \<open>="..."\<close>, and the white space after it. \<open>attrs_text\<close> is the text of a list of
  attributes. In a well-formed list the keys are attribute names, no value holds a double
  quote, and an attribute without value is followed by white space unless it is the last
  one.
\<close>

type_synonym attr = "string \<times> string option \<times> string"

fun attr_text :: "attr \<Rightarrow> string" where
  "attr_text (k, None, sp) = k @ sp"
| "attr_text (k, Some v, sp) = k @ [CHR ''='', CHR 0x22] @ v @ [CHR 0x22] @ sp"

definition attrs_text :: "attr list \<Rightarrow> string" where
  "attrs_text ats = concat (map attr_text ats)"

fun wf_attrs :: "attr list \<Rightarrow> bool" where
  "wf_attrs [] = True"
| "wf_attrs ((k, v, sp) # ats) =
     (attr_name k \<and>
      (case v of None \<Rightarrow> ats = [] \<or> sp \<noteq> [] | Some x \<Rightarrow> CHR 0x22 \<notin> set x) \<and>
      list_all (\<lambda>x. x \<in> set ws) sp \<and> wf_attrs ats)"

text \<open>What is stored for an attribute: the text of a value that is not empty, and
  \<open>true\<close> otherwise. \<open>store_attr\<close> is the assignment \<open>props[k] = ...\<close> of that
  value.\<close>

definition stored :: "string option \<Rightarrow> propval" where
  "stored v = (case v of None \<Rightarrow> PTrue | Some [] \<Rightarrow> PTrue | Some (x # xs) \<Rightarrow> PStr (x # xs))"

fun store_attr :: "propval Dict \<Rightarrow> attr \<Rightarrow> propval Dict" where
  "store_attr d (k, v, sp) = props_set d k (stored v)"




section \<open>Stepwise evaluation of the matcher\<close>

text \<open>The continuations of \<open>bt\<close> by name, so that a match on a given text is computed
  by rewriting, one step of the matcher at a time.\<close>

definition kseq :: "re \<Rightarrow> (string \<Rightarrow> caps \<Rightarrow> 'a option) \<Rightarrow> string \<Rightarrow> caps \<Rightarrow> 'a option" where
  "kseq b k = (\<lambda>s' c'. bt b s' c' k)"

definition kstar :: "re \<Rightarrow> string \<Rightarrow> (string \<Rightarrow> caps \<Rightarrow> 'a option) \<Rightarrow> string \<Rightarrow> caps \<Rightarrow> 'a option" where
  "kstar a s k = (\<lambda>s' c'. if length s' < length s then bt (Star a) s' c' k else None)"

definition kopt :: "string \<Rightarrow> (string \<Rightarrow> caps \<Rightarrow> 'a option) \<Rightarrow> string \<Rightarrow> caps \<Rightarrow> 'a option" where
  "kopt s k = (\<lambda>s' c'. if length s' < length s then k s' c' else None)"

definition kgrp :: "nat \<Rightarrow> string \<Rightarrow> (string \<Rightarrow> caps \<Rightarrow> 'a option) \<Rightarrow> string \<Rightarrow> caps \<Rightarrow> 'a option" where
  "kgrp n s k = (\<lambda>s' c'. k s' (c'[n := Some (take (length s - length s') s)]))"

definition kdone :: "string \<Rightarrow> caps \<Rightarrow> (string \<times> caps) option" where
  "kdone = (\<lambda>s' c'. Some (s', c'))"

lemma bt_ev:
  "bt Eps s c k = k s c"
  "bt (Cls cs) [] c k = None"
  "bt (Cls cs) (x # xs) c k = (if x \<in> set cs then k xs c else None)"
  "bt (NCls cs) [] c k = None"
  "bt (NCls cs) (x # xs) c k = (if x \<notin> set cs then k xs c else None)"
  "bt (Seq a b) s c k = bt a s c (kseq b k)"
  "bt (Star a) s c k = (case bt a s c (kstar a s k) of Some r \<Rightarrow> Some r | None \<Rightarrow> k s c)"
  "bt (Opt a) s c k = (case bt a s c (kopt s k) of Some r \<Rightarrow> Some r | None \<Rightarrow> k s c)"
  "bt (Grp n a) s c k = bt a s c (kgrp n s k)"
  "kseq b k s c = bt b s c k"
  "kstar a s0 k s c = (if length s < length s0 then bt (Star a) s c k else None)"
  "kopt s0 k s c = (if length s < length s0 then k s c else None)"
  "kgrp n s0 k s c = k s (c[n := Some (take (length s0 - length s) s0)])"
  "kdone s c = Some (s, c)"
  by (simp_all add: kseq_def kstar_def kopt_def kgrp_def kdone_def bt.simps)

lemma scan_ev:
  "scan r i s =
     (case bt r s (init_caps r) kdone of
        Some (s', c') \<Rightarrow>
          Some \<lparr>index = i, matched = take (length s - length s') s, groups = c'\<rparr>
      | None \<Rightarrow> (case s of [] \<Rightarrow> None | x # t \<Rightarrow> scan r (Suc i) t))"
  by (simp add: kdone_def scan.simps[of r i s])

lemmas pats = anyTag_def openingTag_def attributes_def comments_def attrs_part_def lit_def
  Plus_def ws_def tagname_def

lemmas rx_ev = bt_ev scan_ev exec_def exec_from_def pats

lemmas dict_ev = dict_set_def dict_in_def dict_delete_def array_index_def digit_def decimal_def
  props_set_def

lemmas parse_ev = rx_ev dict_ev parse_def parse_loop.simps tag_def text_before_def push_text_def
  close_tag_def open_tag_def trim_def call_h_def grp_def to_string_def truthy_def parseProps_def
  findAll.simps append_vn_def

lemmas rx2_ev = regexp_def exec_rx_def match_at_def search_def js_exec_def replace_def
  replace_all.simps remove_comments_def

lemmas gen_ev = rx2_ev compileNode.simps run_Rest compileProps_def first_directive_def
  delete_prop_def with_children_def parseInterpolations_def replacer_def text_of_def quote_def
  no_directives_def no_bindings_def props_in_def object_prototype_def in_directives_def
  member_def joined_def out_text_def start_def

section \<open>The render function\<close>

text \<open>
  C5. The render function does not use the node-construction function it is given:
  the scope gets the \<open>h\<close> of the options of \<open>compile\<close>. Rendering with \<open>Fun 2\<close> a
  template compiled with \<open>h = Fun 1\<close> puts \<open>Fun 1\<close> into the scope.
\<close>

theorem renderTemplate_ignores_its_argument:
  "renderTemplate options innerRender this h1 = renderTemplate options innerRender this h2 \<and>
   renderTemplate (example_options\<lparr>h := Fun 1\<rparr>) (\<lambda>scope. Inr (lookup scope ''h''))
       (ThisObj (Obj [] None)) (Fun 2) = Inr (Fun 1)"
  by (simp add: renderTemplate_def object_create_def obj_set_def dict_ev)

section \<open>Text nodes\<close>

text \<open>
  C1. A text node is marked static exactly when \<open>search\<close> answers 0, that is when
  its value starts with an interpolation marker, since the flag is \<open>!search(...)\<close>: the
  text \<open>hello\<close>, which has no marker, is marked dynamic, and the text
  \<open>{{name}} is here\<close> is marked static.
\<close>

theorem text_node_static_iff_marker_at_start:
  "detectStaticNodes (VNode i ''#text'' p cs st (Some v)) options s =
     (Inr (search (interpolationRegex options) v = 0),
      VNode i ''#text'' p cs (Some (search (interpolationRegex options) v = 0)) (Some v), s) \<and>
   search (interpolationRegex example_options) ''hello'' = - 1 \<and>
   detectStaticNodes (call_h 0 ''#text'' None (Some ''hello'')) example_options s =
     (Inr False, VNode 0 ''#text'' None [] (Some False) (Some ''hello''), s) \<and>
   search (interpolationRegex example_options) ''{{name}} is here'' = 0 \<and>
   detectStaticNodes (call_h 0 ''#text'' None (Some ''{{name}} is here'')) example_options s =
     (Inr True, VNode 0 ''#text'' None [] (Some True) (Some ''{{name}} is here''), s)"
proof -
  have a: "search (interpolationRegex example_options) ''hello'' = - 1"
    by (simp add: example_options_def braces_def rx_ev rx2_ev)
  have b: "search (interpolationRegex example_options) ''{{name}} is here'' = 0"
    by (simp add: example_options_def braces_def rx_ev rx2_ev)
  show ?thesis
    by (simp add: call_h_def a b Let_def)
qed

section \<open>Closing tags without an opening tag\<close>

lemma unwind_no_container:
  "list_all (\<lambda>vn. Some (type vn) \<noteq> name \<or> ident vn \<in> cl) stk \<Longrightarrow>
     fst (unwind name cl stk content) = []"
  by (induction stk arbitrary: content) auto

lemma close_tag_no_container:
  "no_container (grp nextTag 1) st \<Longrightarrow> close_tag nextTag st = Inl (NoOpeningTag (matched nextTag))"
  using unwind_no_container[of "grp nextTag 1" "closed st" "stack st" "[]"]
  by (cases "unwind (grp nextTag 1) (closed st) (stack st) []")
     (simp add: close_tag_def no_container_def)

lemma loop_at_parse: "loop_at n template = Some (html, st) \<Longrightarrow> parse template = parse_loop html st"
proof (induction n arbitrary: html st)
  case 0
  then show ?case by (simp add: parse_def)
next
  case (Suc n)
  from Suc.prems obtain html0 st0 nextTag where
    l: "loop_at n template = Some (html0, st0)" and ne: "html0 \<noteq> []"
    and e: "exec anyTag html0 = Some nextTag"
    and t: "tag nextTag (text_before html0 (Some nextTag) st0) = Inr st"
    and h: "html = drop (index nextTag + length (matched nextTag)) html0"
    by (auto split: option.splits if_splits sum.splits)
  from ne e t h have "parse_loop html0 st0 = parse_loop html st"
    by (subst parse_loop.simps) simp
  with Suc.IH[OF l] show ?case by simp
qed

text \<open>
  C3. When the loop of \<open>parse\<close> comes to a closing tag (a tag that
  \<open>regex.openingTag\<close> does not match) and the stack, with the text in front of the tag
  pushed, holds no unclosed node of the type the tag names, \<open>parse\<close> throws the error
  for that tag: there is no forest, and \<open>compile\<close> of a source whose text without
  comments is this template throws the same error.
\<close>

theorem unmatched_closing_tag_throws:
  assumes "loop_at n template = Some (html, st)"
    and "html \<noteq> []"
    and "exec anyTag html = Some nextTag"
    and "exec openingTag (matched nextTag) = None"
    and "no_container (grp nextTag 1) (text_before html (Some nextTag) st)"
  shows "parse template = Inl (NoOpeningTag (matched nextTag)) \<and>
         (remove_comments source = template \<longrightarrow>
            compile js source options s = Inl (NoOpeningTag (matched nextTag)))"
proof -
  from assms(4,5) have
    "tag nextTag (text_before html (Some nextTag) st) = Inl (NoOpeningTag (matched nextTag))"
    by (simp add: tag_def close_tag_no_container)
  with assms(2,3) have "parse_loop html st = Inl (NoOpeningTag (matched nextTag))"
    by (subst parse_loop.simps) simp
  with loop_at_parse[OF assms(1)] have p: "parse template = Inl (NoOpeningTag (matched nextTag))"
    by simp
  then show ?thesis by (simp add: compile_def)
qed

theorem unmatched_closing_tag_throws_witness:
  "parse ''<div></span>'' = Inl (NoOpeningTag ''</span>'') \<and>
   compile (\<lambda>code. None :: (nat proxy \<Rightarrow> error + unit) option) ''<div></span>'' example_options start =
     Inl (NoOpeningTag ''</span>'')"
proof -
  let ?t = "''<div></span>''"
  let ?m1 = "\<lparr>index = 0, matched = ''<div>'', groups = [Some ''div'', None, None]\<rparr>"
  let ?m2 = "\<lparr>index = 0, matched = ''</span>'', groups = [Some ''span'', None, None]\<rparr>"
  let ?st = "\<lparr>stack = [VNode 0 ''div'' (Some []) [] None None], closed = {}, fresh = Suc 0\<rparr>"
  have e1: "exec anyTag ?t = Some ?m1" by (simp add: rx_ev)
  have o1: "exec openingTag ''<div>'' = Some ?m1" by (simp add: rx_ev)
  have t1: "tag ?m1 (text_before ?t (Some ?m1) \<lparr>stack = [], closed = {}, fresh = 0\<rparr>) = Inr ?st"
    by (simp add: tag_def o1 text_before_def open_tag_def call_h_def grp_def to_string_def truthy_def)
  have l: "loop_at (Suc 0) ?t = Some (''</span>'', ?st)"
    using e1 t1 by simp
  have e2: "exec anyTag ''</span>'' = Some ?m2" by (simp add: rx_ev)
  have o2: "exec openingTag ''</span>'' = None" by (simp add: rx_ev)
  have nc: "no_container (grp ?m2 1) (text_before ''</span>'' (Some ?m2) ?st)"
    by (simp add: no_container_def text_before_def grp_def)
  have r: "remove_comments ?t = ?t"
    by (simp add: rx_ev rx2_ev)
  from unmatched_closing_tag_throws[OF l _ e2 _ nc, of ?t
      "\<lambda>code. None :: (nat proxy \<Rightarrow> error + unit) option" example_options start] o2 r
  show ?thesis by simp
qed

section \<open>Templates with several roots\<close>

text \<open>
  C9. When the forest of the template (without its comments) has a first root and
  further roots, \<open>compile\<close> generates the code of the first root only and the render
  function evaluates that code: nothing of the result depends on the other roots, no
  error arises from them, and the result is the one of a template whose forest is the
  first root alone.
\<close>

theorem compile_uses_first_root:
  assumes "parse (remove_comments template) = Inr (root # others)"
  shows "compile js template options s =
           (case fst (compileNode root options s) of
              Inl e \<Rightarrow> Inl e
            | Inr code \<Rightarrow>
                (case saferEval js (''return '' @ out_text code) of
                   Inl e \<Rightarrow> Inl e
                 | Inr innerRender \<Rightarrow> Inr (renderTemplate options innerRender))) \<and>
         (parse (remove_comments single) = Inr [root] \<longrightarrow>
            compile js template options s = compile js single options s)"
  using assms by (simp add: compile_def)

theorem compile_uses_first_root_witness:
  "compile echo ''<a></a><b>x</b>'' example_options start =
     compile echo ''<a></a>'' example_options start \<and>
   (case compile echo ''<a></a><b>x</b>'' example_options start of
      Inl e \<Rightarrow> False
    | Inr render \<Rightarrow>
        render (ThisObj (Obj [] None)) (Fun 0) =
          Inr ''with(sandbox) {return h('a',{key: 'y-key-7'},[])}'')"
proof -
  let ?a = "VNode 0 ''a'' (Some []) [] None None"
  let ?b = "VNode (Suc 0) ''b'' (Some []) [VNode 2 ''#text'' None [] None (Some ''x'')] None None"
  have r1: "remove_comments ''<a></a><b>x</b>'' = ''<a></a><b>x</b>''"
    by (simp add: rx_ev rx2_ev)
  have r2: "remove_comments ''<a></a>'' = ''<a></a>''"
    by (simp add: rx_ev rx2_ev)
  have p1: "parse ''<a></a><b>x</b>'' = Inr [?a, ?b]"
    by (simp add: parse_ev)
  have p2: "parse ''<a></a>'' = Inr [?a]"
    by (simp add: parse_ev)
  have c: "fst (compileNode ?a example_options start) = Inr (Str ''h('a',{key: 'y-key-7'},[])'')"
    by (simp add: rx_ev gen_ev dict_ev example_options_def braces_def)
  have a1: "parse (remove_comments ''<a></a><b>x</b>'') = Inr (?a # [?b])"
    by (simp only: r1 p1)
  have a2: "parse (remove_comments ''<a></a>'') = Inr [?a]"
    by (simp only: r2 p2)
  note th = compile_uses_first_root[OF a1, of echo example_options start "''<a></a>''"]
  note eq = th[THEN conjunct1]
  note eq2 = th[THEN conjunct2, THEN mp, OF a2]
  from eq c have v: "compile echo ''<a></a><b>x</b>'' example_options start =
      Inr (renderTemplate example_options
             (\<lambda>sandbox. Inr ''with(sandbox) {return h('a',{key: 'y-key-7'},[])}''))"
    by (simp add: saferEval_def echo_def out_text_def)
  show ?thesis
  proof (intro conjI)
    show "compile echo ''<a></a><b>x</b>'' example_options start =
            compile echo ''<a></a>'' example_options start"
      by (rule eq2)
    show "case compile echo ''<a></a><b>x</b>'' example_options start of
            Inl e \<Rightarrow> False
          | Inr render \<Rightarrow>
              render (ThisObj (Obj [] None)) (Fun 0) =
                Inr ''with(sandbox) {return h('a',{key: 'y-key-7'},[])}''"
      by (simp only: v) (simp add: renderTemplate_def object_create_def)
  qed
qed

section \<open>The generated key\<close>

text \<open>
  C8. The generated prop \<open>key\<close> is written like every other prop, so the data-binding
  pattern is tried on the text \<open>key\<close> too. With \<open>/(.+)/\<close> the props \<open>class="a"\<close> give a
  literal whose \<open>key\<close> entry is the expression \<open>y-key-7\<close>, not a string; with
  \<open>/k(e)y/\<close> the literal of an element without props has the entry \<open>e\<close> and no entry
  \<open>key\<close>.
\<close>

theorem generated_key_is_read_as_binding:
  "fst (compileProps (Some (parseProps ''class=\"a\"''))
          (example_options\<lparr>dataBindingRegex := regexp 2 any_text False\<rparr>) start) =
     ''{class: a,key: y-key-7}'' \<and>
   fst (compileProps (Some [])
          (example_options\<lparr>dataBindingRegex := regexp 2 key_letter False\<rparr>) start) =
     ''{e: y-key-7}''"
proof -
  have p: "parseProps ''class=\"a\"'' = [(''class'', PStr ''a'')]"
    by (simp add: parse_ev)
  have a: "fst (compileProps (Some [(''class'', PStr ''a'')])
          (example_options\<lparr>dataBindingRegex := regexp 2 any_text False\<rparr>) start) =
     ''{class: a,key: y-key-7}''"
    by (simp add: rx_ev gen_ev dict_ev example_options_def any_text_def grp_def to_string_def)
  have b: "fst (compileProps (Some [])
          (example_options\<lparr>dataBindingRegex := regexp 2 key_letter False\<rparr>) start) =
     ''{e: y-key-7}''"
    by (simp add: rx_ev gen_ev dict_ev example_options_def key_letter_def grp_def to_string_def)
  from p a b show ?thesis by simp
qed

section \<open>Patterns without state\<close>

text \<open>A pattern without the flags \<open>g\<close> and \<open>y\<close> answers every \<open>exec\<close> from 0 and
  leaves the store as it is.\<close>

lemma exec_rx_stateless:
  "\<not> global rx \<Longrightarrow> \<not> sticky rx \<Longrightarrow> exec_rx rx k st = (match_at rx k 0, st)"
  by (simp add: exec_rx_def)

lemma every_key_stateless:
  "\<not> global rx \<Longrightarrow> \<not> sticky rx \<Longrightarrow>
     every_key rx ks st = (list_all (\<lambda>k. match_at rx k 0 = None) ks, st)"
  by (induction ks) (auto simp: exec_rx_stateless split: option.splits)

lemma hasKey_stateless:
  "\<not> global rx \<Longrightarrow> \<not> sticky rx \<Longrightarrow>
     hasKey rx ks st =
       (list_ex (\<lambda>k. k = ''key'' \<or> (\<exists>m. match_at rx k 0 = Some m \<and> grp m 1 = Some ''key'')) ks, st)"
  by (induction ks) (auto simp: exec_rx_stateless split: option.splits)

lemma entries_stateless:
  "\<not> global rx \<Longrightarrow> \<not> sticky rx \<Longrightarrow>
     entries rx ps st =
       (map (\<lambda>(k, v). case match_at rx k 0 of
                         Some m \<Rightarrow> to_string (grp m 1) @ '': '' @ text_of v
                       | None \<Rightarrow> k @ '': '' @ quote @ text_of v @ quote) ps, st)"
  by (induction ps) (auto simp: exec_rx_stateless split: option.splits prod.splits)

lemma array_index_key: "array_index ''key'' = None"
  by (simp add: array_index_def digit_def)

section \<open>Props\<close>

text \<open>
  C7, as the claim states it: the prop \<open>id="{{userId}}"\<close> is compiled with a
  data-binding pattern for \<open>{{...}}\<close>. The pattern is tried on the key \<open>id\<close>, which it
  does not match, and the entry is the string literal. (And a pattern with the flag \<open>g\<close>
  does not even bind the prop \<open>{{id}}="userId"\<close>: the \<open>exec\<close> of \<open>hasKey\<close> leaves
  \<open>lastIndex\<close> at the end of the key, and the \<open>exec\<close> of the entry starts there.)
\<close>

theorem marker_in_value_stays_literal:
  "parseProps ''id=\"{{userId}}\"'' = [(''id'', PStr ''{{userId}}'')] \<and>
   fst (compileProps (Some (parseProps ''id=\"{{userId}}\"'')) example_options start) =
     ''{id: '{{userId}}',key: 'y-key-7'}'' \<and>
   fst (entries (dataBindingRegex example_options) [(''id'', PStr ''{{userId}}'')] (lastIndex start))
     \<noteq> [''id: userId''] \<and>
   fst (compileProps (Some [(''{{id}}'', PStr ''userId'')])
          (example_options\<lparr>dataBindingRegex := regexp 2 braces True\<rparr>) start) =
     ''{{{id}}: 'userId',key: 'y-key-7'}''"
proof -
  have p: "parseProps ''id=\"{{userId}}\"'' = [(''id'', PStr ''{{userId}}'')]"
    by (simp add: parse_ev)
  have c: "fst (compileProps (Some [(''id'', PStr ''{{userId}}'')]) example_options start) =
             ''{id: '{{userId}}',key: 'y-key-7'}''"
    by (simp add: example_options_def braces_def rx_ev gen_ev dict_ev)
  have e: "fst (entries (dataBindingRegex example_options) [(''id'', PStr ''{{userId}}'')] (lastIndex start))
             \<noteq> [''id: userId'']"
    by (simp add: example_options_def braces_def rx_ev gen_ev)
  have g: "fst (compileProps (Some [(''{{id}}'', PStr ''userId'')])
          (example_options\<lparr>dataBindingRegex := regexp 2 braces True\<rparr>) start) =
     ''{{{id}}: 'userId',key: 'y-key-7'}''"
    by (simp add: example_options_def braces_def rx_ev gen_ev dict_ev grp_def)
  from p c e g show ?thesis by simp
qed

text \<open>
  C7, amended: what decides is the key of the prop. For a data-binding pattern
  without the flags \<open>g\<close> and \<open>y\<close>, the literal has one entry for each prop, in the order
  of the props: when the pattern matches the key, the entry is the first capture of the
  key, a colon and the value as it stands; when it does not, the entry is the key and the
  value between quotes. When no prop stands for \<open>key\<close> (no key is \<open>key\<close> and no key is
  matched with the first capture \<open>key\<close>), the props have one more prop, \<open>key\<close>, with a
  value from the random supply, which is written by the same rule.
\<close>

theorem compileProps_binds_by_key:
  assumes "\<not> global (dataBindingRegex options)" and "\<not> sticky (dataBindingRegex options)"
  shows "compileProps (Some ps) options s =
           (''{'' @
            join '',''
              (map (\<lambda>(k, v). case match_at (dataBindingRegex options) k 0 of
                                Some m \<Rightarrow> to_string (grp m 1) @ '': '' @ text_of v
                              | None \<Rightarrow> k @ '': '' @ quote @ text_of v @ quote)
                   (ps @
                    (if \<exists>k \<in> set (map fst ps).
                          k = ''key'' \<or>
                          (\<exists>m. match_at (dataBindingRegex options) k 0 = Some m \<and>
                               grp m 1 = Some ''key'')
                     then [] else [(''key'', PStr (''y-key-'' @ rnd s 0))]))) @
            ''}'',
            if \<exists>k \<in> set (map fst ps).
                 k = ''key'' \<or>
                 (\<exists>m. match_at (dataBindingRegex options) k 0 = Some m \<and> grp m 1 = Some ''key'')
            then s else s\<lparr>rnd := \<lambda>n. rnd s (Suc n)\<rparr>)"
proof -
  define rx where "rx = dataBindingRegex options"
  define found where
    "found = (\<exists>k \<in> set (map fst ps).
                k = ''key'' \<or> (\<exists>m. match_at rx k 0 = Some m \<and> grp m 1 = Some ''key''))"
  define entry where
    "entry = (\<lambda>(k, v). case match_at rx k 0 of
                          Some m \<Rightarrow> to_string (grp m 1) @ '': '' @ text_of v
                        | None \<Rightarrow> k @ '': '' @ quote @ text_of v @ quote)"
  from assms have f: "\<not> global rx" "\<not> sticky rx" by (simp_all add: rx_def)
  have hk: "hasKey rx (map fst ps) (lastIndex s) = (found, lastIndex s)"
    unfolding found_def hasKey_stateless[OF f] by (simp only: list_ex_iff)
  have en: "entries rx qs st = (map entry qs, st)" for qs st
    unfolding entry_def by (rule entries_stateless[OF f])
  have r: "\<lparr>rnd = rnd s, lastIndex = lastIndex s\<rparr> = s" by simp
  have "compileProps (Some ps) options s =
          (''{'' @ join '','' (map entry (ps @ (if found then [] else [(''key'', PStr (''y-key-'' @ rnd s 0))]))) @ ''}'',
           if found then s else s\<lparr>rnd := \<lambda>n. rnd s (Suc n)\<rparr>)"
  proof (cases found)
    case True
    then show ?thesis
      by (simp add: compileProps_def rx_def[symmetric] hk en r)
  next
    case False
    then have "\<not> dict_in ''key'' ps" by (auto simp: dict_in_def found_def)
    then have ds: "dict_set ps ''key'' v = ps @ [(''key'', v)]" for v
      by (simp add: dict_set_def array_index_key)
    from False show ?thesis
      by (simp add: compileProps_def rx_def[symmetric] hk en ds)
  qed
  then show ?thesis
    unfolding found_def entry_def rx_def .
qed

theorem compileProps_binds_by_key_witness:
  "fst (compileProps (Some [(''{{id}}'', PStr ''userId''), (''id'', PStr ''{{userId}}'')])
          example_options start) =
     ''{id: userId,id: '{{userId}}',key: 'y-key-7'}'' \<and>
   fst (compileProps (Some [(''{{key}}'', PStr ''k''), (''class'', PTrue)]) example_options start) =
     ''{key: k,class: 'true'}''"
proof -
  have f: "\<not> global (dataBindingRegex example_options)" "\<not> sticky (dataBindingRegex example_options)"
    by (simp_all add: example_options_def regexp_def)
  have e: "match_at (dataBindingRegex example_options) ''{{id}}'' 0 =
             Some \<lparr>index = 0, matched = ''{{id}}'', groups = [Some ''id'']\<rparr>"
    "match_at (dataBindingRegex example_options) ''id'' 0 = None"
    "match_at (dataBindingRegex example_options) ''key'' 0 = None"
    "match_at (dataBindingRegex example_options) ''{{key}}'' 0 =
             Some \<lparr>index = 0, matched = ''{{key}}'', groups = [Some ''key'']\<rparr>"
    "match_at (dataBindingRegex example_options) ''class'' 0 = None"
    by (simp_all add: example_options_def braces_def rx_ev rx2_ev)
  have a: "fst (compileProps (Some [(''{{id}}'', PStr ''userId''), (''id'', PStr ''{{userId}}'')])
          example_options start) =
     ''{id: userId,id: '{{userId}}',key: 'y-key-7'}''"
    using compileProps_binds_by_key[OF f,
        of "[(''{{id}}'', PStr ''userId''), (''id'', PStr ''{{userId}}'')]" start]
    by (simp add: e grp_def to_string_def text_of_def quote_def start_def)
  have b: "fst (compileProps (Some [(''{{key}}'', PStr ''k''), (''class'', PTrue)]) example_options start) =
     ''{key: k,class: 'true'}''"
    using compileProps_binds_by_key[OF f, of "[(''{{key}}'', PStr ''k''), (''class'', PTrue)]" start]
    by (simp add: e grp_def to_string_def text_of_def quote_def start_def)
  from a b show ?thesis by simp
qed

section \<open>Element nodes\<close>

lemma detect_keeps_store:
  "\<not> global (dataBindingRegex options) \<Longrightarrow> \<not> sticky (dataBindingRegex options) \<Longrightarrow>
     snd (snd (detectStaticNodes vn (options :: 'f CompilerOptions) s)) = s"
  "\<not> global (dataBindingRegex options) \<Longrightarrow> \<not> sticky (dataBindingRegex options) \<Longrightarrow>
     snd (snd (every_child cs (options :: 'f CompilerOptions) s)) = s"
proof (induction vn options s and cs options s rule: detectStaticNodes_every_child.induct)
  case (1 i t p cs st nv options s)
  show ?case
  proof (cases "t = ''#text''")
    case True
    then show ?thesis by (simp add: Let_def)
  next
    case False
    note nt = this
    show ?thesis
    proof (cases "no_directives (directives options) p")
      case (Inl e)
      with nt show ?thesis by simp
    next
      case (Inr b)
      show ?thesis
      proof (cases b)
        case False
        with nt Inr show ?thesis by simp
      next
        case True
        obtain r cs' s' where ec: "every_child cs options s = (r, cs', s')"
          by (metis prod_cases3)
        from True have bt: "b = True" by simp
        from 1(1)[OF nt Inr bt 1(2,3)] ec have s': "s' = s" by simp
        obtain r2 s2 where nb: "no_bindings (dataBindingRegex options) p s = (r2, s2)"
          by fastforce
        then have s2: "s2 = s"
          by (auto simp: no_bindings_def every_key_stateless[OF 1(2,3)] split: option.splits)
        from nt Inr True ec s' nb s2 show ?thesis
          by (cases r; cases r2) (auto split: bool.splits)
      qed
    qed
  qed
next
  case (2 options s)
  then show ?case by simp
next
  case (3 c cs options s)
  obtain r c' s' where d: "detectStaticNodes c options s = (r, c', s')"
    by (metis prod_cases3)
  from 3(1)[OF 3(3,4)] d have s': "s' = s" by simp
  show ?case
  proof (cases r)
    case (Inl e)
    with d s' show ?thesis by simp
  next
    case (Inr b)
    show ?thesis
    proof (cases b)
      case False
      with d s' Inr show ?thesis by simp
    next
      case True
      from True have bt: "b = True" by simp
      from 3(2)[OF d[symmetric] Inr bt refl 3(3,4)] s'
      have "snd (snd (every_child cs options s)) = s" by simp
      with d s' Inr True show ?thesis by (auto split: prod.splits)
    qed
  qed
qed

lemma detect_returns:
  "wf_node vn \<Longrightarrow> fst (detectStaticNodes vn (options :: 'f CompilerOptions) s) \<noteq> Inl e"
  "list_all wf_node cs \<Longrightarrow> fst (every_child cs (options :: 'f CompilerOptions) s) \<noteq> Inl e"
proof (induction vn options s and cs options s rule: detectStaticNodes_every_child.induct)
  case (1 i t p cs st nv options s)
  show ?case
  proof (cases "t = ''#text''")
    case True
    then show ?thesis by (simp add: Let_def)
  next
    case False
    note nt = this
    with 1(2) obtain ps where p: "p = Some ps" and wf: "list_all wf_node cs" by auto
    obtain b where b: "no_directives (directives options) p = Inr b"
      by (cases "own_members (directives options) = []") (simp_all add: no_directives_def p)
    show ?thesis
    proof (cases b)
      case False
      with b nt show ?thesis by simp
    next
      case True
      then have bt: "b = True" by simp
      obtain r cs' s' where ec: "every_child cs options s = (r, cs', s')"
        by (metis prod_cases3)
      from 1(1)[OF nt b bt wf] ec have r: "r \<noteq> Inl e" by simp
      obtain b2 s2 where nb: "no_bindings (dataBindingRegex options) p s' = (Inr b2, s2)"
        by (cases "every_key (dataBindingRegex options) (map fst ps) s'") (simp add: no_bindings_def p)
      show ?thesis
        using nt b bt ec nb r by (cases r) (auto split: bool.splits)
    qed
  qed
next
  case (2 options s)
  show ?case by simp
next
  case (3 c cs options s)
  from 3(3) have wc: "wf_node c" and wcs: "list_all wf_node cs" by simp_all
  obtain r c' s' where d: "detectStaticNodes c options s = (r, c', s')"
    by (metis prod_cases3)
  from 3(1)[OF wc] d have r: "r \<noteq> Inl e" by simp
  show ?case
  proof (cases r)
    case (Inl e')
    with d r 3(1)[OF wc] show ?thesis by simp
  next
    case (Inr b)
    show ?thesis
    proof (cases b)
      case True
      then have bt: "b = True" by simp
      from 3(2)[OF d[symmetric] Inr bt refl wcs]
      have "fst (every_child cs options s') \<noteq> Inl e" .
      with d Inr True show ?thesis by (auto split: prod.splits)
    next
      case False
      with d Inr show ?thesis by simp
    qed
  qed
qed

lemma every_child_is_static:
  assumes "\<not> global (dataBindingRegex options)" and "\<not> sticky (dataBindingRegex options)"
  shows "fst (every_child cs options s) = Inr b \<Longrightarrow> b = list_all (\<lambda>c. is_static c options s) cs"
proof (induction cs arbitrary: b)
  case Nil
  then show ?case by simp
next
  case (Cons c cs)
  obtain r c' s' where d: "detectStaticNodes c options s = (r, c', s')"
    by (metis prod_cases3)
  from detect_keeps_store(1)[OF assms, of c s] d have s': "s' = s" by simp
  show ?case
  proof (cases r)
    case (Inl e)
    with Cons.prems d show ?thesis by simp
  next
    case (Inr b0)
    show ?thesis
    proof (cases b0)
      case True
      with Cons.prems d Inr s' have "fst (every_child cs options s) = Inr b"
        by (auto split: prod.splits)
      from Cons.IH[OF this] d Inr True show ?thesis by (simp add: is_static_def)
    next
      case False
      with Cons.prems d Inr show ?thesis by (simp add: is_static_def)
    qed
  qed
qed

text \<open>
  C2, as the claim states it. With a directive named \<open>toString\<close>, the element of
  \<open><br/>\<close> has no prop, no child and no prop key that matches the data-binding pattern,
  yet it is marked dynamic: \<open>toString\<close> is \<open>in\<close> its props, which inherit it from
  \<open>Object.prototype\<close>. And with a data-binding pattern that has the flag \<open>g\<close>, the
  element of \<open><p {{b}}="y">\<close>, whose key matches the pattern, is marked static when the
  \<open>lastIndex\<close> of the pattern is 5 (where the \<open>exec\<close> of a key like \<open>{{a}}\<close> leaves
  it).
\<close>

theorem inherited_name_makes_dynamic:
  "parse ''<br/>'' = Inr [VNode 0 ''br'' (Some []) [] None None] \<and>
   detectStaticNodes (VNode 0 ''br'' (Some []) [] None None)
       (example_options\<lparr>directives :=
          \<lparr>own_members = [(''toString'', if_directive)], inherited_members = []\<rparr>\<rparr>)
       (\<lambda>i. 0) =
     (Inr False, VNode 0 ''br'' (Some []) [] (Some False) None, \<lambda>i. 0) \<and>
   match_at (regexp 2 braces True) ''{{b}}'' 0 =
     Some \<lparr>index = 0, matched = ''{{b}}'', groups = [Some ''b'']\<rparr> \<and>
   fst (detectStaticNodes (VNode 0 ''p'' (Some [(''{{b}}'', PStr ''y'')]) [] None None)
          (example_options\<lparr>dataBindingRegex := regexp 2 braces True\<rparr>) (\<lambda>i. 5)) = Inr True"
proof -
  have p: "parse ''<br/>'' = Inr [VNode 0 ''br'' (Some []) [] None None]"
    by (simp add: parse_ev)
  have d: "detectStaticNodes (VNode 0 ''br'' (Some []) [] None None)
       (example_options\<lparr>directives :=
          \<lparr>own_members = [(''toString'', if_directive)], inherited_members = []\<rparr>\<rparr>)
       (\<lambda>i. 0) =
     (Inr False, VNode 0 ''br'' (Some []) [] (Some False) None, \<lambda>i. 0)"
    by (simp add: no_directives_def props_in_def object_prototype_def)
  have m: "match_at (regexp 2 braces True) ''{{b}}'' 0 =
     Some \<lparr>index = 0, matched = ''{{b}}'', groups = [Some ''b'']\<rparr>"
    by (simp add: braces_def rx_ev rx2_ev)
  have g: "fst (detectStaticNodes (VNode 0 ''p'' (Some [(''{{b}}'', PStr ''y'')]) [] None None)
          (example_options\<lparr>dataBindingRegex := regexp 2 braces True\<rparr>) (\<lambda>i. 5)) = Inr True"
    by (simp add: example_options_def braces_def rx_ev rx2_ev no_directives_def no_bindings_def
          props_in_def object_prototype_def dict_in_def)
  from p d m g show ?thesis by simp
qed

text \<open>
  C2, amended. For an element node (a type other than \<open>#text\<close>) and a data-binding
  pattern without the flags \<open>g\<close> and \<open>y\<close>, \<open>detectStaticNodes\<close> returns, leaves the
  patterns as they are, and the flag it sets and returns is true exactly when no
  directive name is \<open>in\<close> the props (it is no prop key, and no name that the props
  inherit from \<open>Object.prototype\<close>), every child is classified static by
  \<open>detectStaticNodes\<close>, and no prop key matches the data-binding pattern; otherwise the
  flag is false.
\<close>

theorem element_static_iff:
  assumes "t \<noteq> ''#text''" and "list_all wf_node cs"
    and "\<not> global (dataBindingRegex options)" and "\<not> sticky (dataBindingRegex options)"
  shows "let b = ((\<forall>d \<in> set (map fst (own_members (directives options))).
                      \<not> dict_in d ps \<and> d \<notin> set object_prototype) \<and>
                  (\<forall>c \<in> set cs. is_static c options s) \<and>
                  (\<forall>k \<in> set (map fst ps). match_at (dataBindingRegex options) k 0 = None))
         in \<exists>cs'. detectStaticNodes (VNode i t (Some ps) cs st nv) options s =
                     (Inr b, VNode i t (Some ps) cs' (Some b) nv, s)"
proof -
  define A where "A = (\<forall>d \<in> set (map fst (own_members (directives options))).
                         \<not> dict_in d ps \<and> d \<notin> set object_prototype)"
  define B where "B = (\<forall>c \<in> set cs. is_static c options s)"
  define C where "C = (\<forall>k \<in> set (map fst ps). match_at (dataBindingRegex options) k 0 = None)"
  from detect_returns(2)[OF assms(2), of options s] obtain b0 where
    "fst (every_child cs options s) = Inr b0"
    by (cases "fst (every_child cs options s)") auto
  moreover from detect_keeps_store(2)[OF assms(3,4), of cs s]
  have "snd (snd (every_child cs options s)) = s" .
  ultimately obtain cs' where ec: "every_child cs options s = (Inr b0, cs', s)"
    by (cases "every_child cs options s") auto
  from every_child_is_static[OF assms(3,4), of cs s b0] ec have b: "b0 = B"
    by (simp add: list_all_iff B_def)
  have nd: "no_directives (directives options) (Some ps) = Inr A"
    unfolding A_def by (auto simp: no_directives_def props_in_def list_all_iff)
  have nb: "no_bindings (dataBindingRegex options) (Some ps) s = (Inr C, s)"
    by (simp add: no_bindings_def every_key_stateless[OF assms(3,4)] list_all_iff C_def)
  have "detectStaticNodes (VNode i t (Some ps) cs st nv) options s =
          (Inr (A \<and> B \<and> C), VNode i t (Some ps) (if A then cs' else cs) (Some (A \<and> B \<and> C)) nv, s)"
    using assms(1) nd nb ec b by (cases A; cases B) simp_all
  then show ?thesis
    unfolding A_def B_def C_def Let_def by blast
qed


theorem element_static_iff_witness:
  "(\<exists>cs'. detectStaticNodes
             (VNode 0 ''div'' (Some [(''class'', PStr ''a'')]) [VNode 1 ''br'' (Some []) [] None None] None None)
             example_options (\<lambda>i. 0) =
           (Inr True, VNode 0 ''div'' (Some [(''class'', PStr ''a'')]) cs' (Some True) None, \<lambda>i. 0)) \<and>
   (\<exists>cs'. detectStaticNodes
             (VNode 0 ''div'' (Some [(''class'', PStr ''a''), (''if'', PStr ''x'')]) [] None None)
             example_options (\<lambda>i. 0) =
           (Inr False, VNode 0 ''div'' (Some [(''class'', PStr ''a''), (''if'', PStr ''x'')]) cs'
                         (Some False) None, \<lambda>i. 0)) \<and>
   (\<exists>cs'. detectStaticNodes
             (VNode 0 ''div'' (Some [(''{{id}}'', PStr ''x'')]) [] None None)
             example_options (\<lambda>i. 0) =
           (Inr False, VNode 0 ''div'' (Some [(''{{id}}'', PStr ''x'')]) cs' (Some False) None, \<lambda>i. 0)) \<and>
   (\<exists>cs'. detectStaticNodes
             (VNode 0 ''div'' (Some []) [VNode 1 ''#text'' None [] None (Some ''x'')] None None)
             example_options (\<lambda>i. 0) =
           (Inr False, VNode 0 ''div'' (Some []) cs' (Some False) None, \<lambda>i. 0))"
proof -
  have f: "\<not> global (dataBindingRegex example_options)" "\<not> sticky (dataBindingRegex example_options)"
    by (simp_all add: example_options_def regexp_def)
  have e: "match_at (dataBindingRegex example_options) ''class'' 0 = None"
    "match_at (dataBindingRegex example_options) ''if'' 0 = None"
    "match_at (dataBindingRegex example_options) ''{{id}}'' 0 =
       Some \<lparr>index = 0, matched = ''{{id}}'', groups = [Some ''id'']\<rparr>"
    by (simp_all add: example_options_def braces_def rx_ev rx2_ev)
  have d: "own_members (directives example_options) = [(''if'', if_directive)]"
    by (simp add: example_options_def)
  have s: "is_static (VNode 1 ''br'' (Some []) [] None None) example_options (\<lambda>i. 0)"
    by (simp add: is_static_def no_directives_def no_bindings_def d dict_in_def props_in_def
          object_prototype_def)
  have x: "search (interpolationRegex example_options) ''x'' = - 1"
    by (simp add: example_options_def braces_def rx_ev rx2_ev)
  have n: "\<not> is_static (VNode 1 ''#text'' None [] None (Some ''x'')) example_options (\<lambda>i. 0)"
    by (simp add: is_static_def x Let_def)
  from element_static_iff[OF _ _ f, where t = "''div''" and cs = "[VNode 1 ''br'' (Some []) [] None None]"
      and i = 0 and ps = "[(''class'', PStr ''a'')]" and st = None and nv = None and s = "\<lambda>i. 0"]
  have a: "\<exists>cs'. detectStaticNodes
             (VNode 0 ''div'' (Some [(''class'', PStr ''a'')]) [VNode 1 ''br'' (Some []) [] None None] None None)
             example_options (\<lambda>i. 0) =
           (Inr True, VNode 0 ''div'' (Some [(''class'', PStr ''a'')]) cs' (Some True) None, \<lambda>i. 0)"
    by (simp add: e d s dict_in_def object_prototype_def Let_def del: detectStaticNodes.simps One_nat_def)
  from element_static_iff[OF _ _ f, where t = "''div''" and cs = "[]"
      and i = 0 and ps = "[(''class'', PStr ''a''), (''if'', PStr ''x'')]" and st = None and nv = None and s = "\<lambda>i. 0"]
  have b: "\<exists>cs'. detectStaticNodes
             (VNode 0 ''div'' (Some [(''class'', PStr ''a''), (''if'', PStr ''x'')]) [] None None)
             example_options (\<lambda>i. 0) =
           (Inr False, VNode 0 ''div'' (Some [(''class'', PStr ''a''), (''if'', PStr ''x'')]) cs'
                         (Some False) None, \<lambda>i. 0)"
    by (simp add: e d dict_in_def object_prototype_def Let_def del: detectStaticNodes.simps One_nat_def)
  from element_static_iff[OF _ _ f, where t = "''div''" and cs = "[]"
      and i = 0 and ps = "[(''{{id}}'', PStr ''x'')]" and st = None and nv = None and s = "\<lambda>i. 0"]
  have c: "\<exists>cs'. detectStaticNodes
             (VNode 0 ''div'' (Some [(''{{id}}'', PStr ''x'')]) [] None None)
             example_options (\<lambda>i. 0) =
           (Inr False, VNode 0 ''div'' (Some [(''{{id}}'', PStr ''x'')]) cs' (Some False) None, \<lambda>i. 0)"
    by (simp add: e d dict_in_def object_prototype_def Let_def del: detectStaticNodes.simps One_nat_def)
  from element_static_iff[OF _ _ f, where t = "''div''" and cs = "[VNode 1 ''#text'' None [] None (Some ''x'')]"
      and i = 0 and ps = "[]" and st = None and nv = None and s = "\<lambda>i. 0"]
  have g: "\<exists>cs'. detectStaticNodes
             (VNode 0 ''div'' (Some []) [VNode 1 ''#text'' None [] None (Some ''x'')] None None)
             example_options (\<lambda>i. 0) =
           (Inr False, VNode 0 ''div'' (Some []) cs' (Some False) None, \<lambda>i. 0)"
    using n by (simp add: e d dict_in_def object_prototype_def Let_def del: detectStaticNodes.simps One_nat_def)
  from a b c g show ?thesis by simp
qed

section \<open>Attributes with an empty value\<close>

lemma star_class_greedy:
  assumes "list_all (\<lambda>x. x \<notin> set cs) k" and "rest = [] \<or> hd rest \<in> set cs"
    and "K rest c = Some r"
  shows "bt (Star (NCls cs)) (k @ rest) c K = Some r"
  using assms(1)
proof (induction k)
  case Nil
  from assms(2) have "bt (NCls cs) rest c (kstar (NCls cs) rest K) = None"
    by (cases rest) (auto simp: bt_ev)
  with assms(3) show ?case by (simp add: bt_ev)
next
  case (Cons x k)
  then have "bt (Star (NCls cs)) (k @ rest) c K = Some r" and "x \<notin> set cs" by simp_all
  then show ?case by (simp add: bt_ev)
qed

lemma attributes_unfold:
  "attributes =
     Seq (Grp 0 (Seq (NCls (ws @ [CHR ''/'', CHR 0x22, CHR 0x27, CHR ''=''])) 
                     (Star (NCls (ws @ [CHR ''/'', CHR 0x22, CHR 0x27, CHR ''=''])))))
         (Opt (Seq (Seq (Cls [CHR ''='']) (Cls [CHR 0x22]))
                   (Seq (Grp 1 (Star (NCls [CHR 0x22]))) (Cls [CHR 0x22]))))"
  by (simp add: attributes_def lit_def Plus_def)

lemma bt_attributes:
  assumes "attr_name k"
    and "rest = [] \<or> hd rest \<in> set (ws @ [CHR ''/'', CHR 0x22, CHR 0x27, CHR ''=''])"
    and "bt (Opt (Seq (Seq (Cls [CHR ''='']) (Cls [CHR 0x22]))
                   (Seq (Grp 1 (Star (NCls [CHR 0x22]))) (Cls [CHR 0x22]))))
            rest [Some k, None] kdone = Some r"
  shows "bt attributes (k @ rest) [None, None] kdone = Some r"
proof -
  from assms(1) obtain x k' where k: "k = x # k'"
    and x: "x \<notin> set (ws @ [CHR ''/'', CHR 0x22, CHR 0x27, CHR ''=''])"
    and k': "list_all (\<lambda>x. x \<notin> set (ws @ [CHR ''/'', CHR 0x22, CHR 0x27, CHR ''=''])) k'"
    by (cases k) (auto simp: attr_name_def)
  let ?K = "kgrp 0 (k @ rest)
              (kseq (Opt (Seq (Seq (Cls [CHR ''='']) (Cls [CHR 0x22]))
                   (Seq (Grp 1 (Star (NCls [CHR 0x22]))) (Cls [CHR 0x22])))) kdone)"
  have "?K rest [None, None] = Some r"
    using assms(3) by (simp add: bt_ev(10,13))
  from star_class_greedy[of "ws @ [CHR ''/'', CHR 0x22, CHR 0x27, CHR ''='']" k' rest ?K
      "[None, None]" r, OF k' assms(2) this]
  show ?thesis
    unfolding attributes_unfold using x by (simp add: bt_ev(5,6,9,10) k)
qed

text \<open>The match of one attribute at the head of a text.\<close>

lemma bt_attribute_without_value:
  assumes "attr_name k" and "rest = [] \<or> hd rest \<in> set ws"
  shows "bt attributes (k @ rest) [None, None] kdone = Some (rest, [Some k, None])"
proof (rule bt_attributes[OF assms(1)])
  from assms(2) show "rest = [] \<or> hd rest \<in> set (ws @ [CHR ''/'', CHR 0x22, CHR 0x27, CHR ''=''])"
    by auto
  from assms(2) show "bt (Opt (Seq (Seq (Cls [CHR ''='']) (Cls [CHR 0x22]))
                   (Seq (Grp 1 (Star (NCls [CHR 0x22]))) (Cls [CHR 0x22]))))
            rest [Some k, None] kdone = Some (rest, [Some k, None])"
    by (cases rest) (auto simp: bt_ev ws_def)
qed

lemma bt_attribute_with_value:
  assumes "attr_name k" and "CHR 0x22 \<notin> set x"
  shows "bt attributes (k @ [CHR ''='', CHR 0x22] @ x @ [CHR 0x22] @ rest) [None, None] kdone =
           Some (rest, [Some k, Some x])"
proof (rule bt_attributes[OF assms(1)])
  let ?r0 = "[CHR ''='', CHR 0x22] @ x @ [CHR 0x22] @ rest"
  show "?r0 = [] \<or> hd ?r0 \<in> set (ws @ [CHR ''/'', CHR 0x22, CHR 0x27, CHR ''=''])"
    by simp
  let ?s = "x @ CHR 0x22 # rest"
  let ?K = "kgrp 1 ?s (kseq (Cls [CHR 0x22]) (kopt ?r0 kdone))"
  have K: "?K (CHR 0x22 # rest) [Some k, None] = Some (rest, [Some k, Some x])"
    by (simp add: bt_ev)
  from assms(2) have nq: "list_all (\<lambda>c. c \<notin> set [CHR 0x22]) x"
    by (auto simp: list_all_iff)
  have "bt (Star (NCls [CHR 0x22])) (x @ CHR 0x22 # rest) [Some k, None] ?K =
          Some (rest, [Some k, Some x])"
    using star_class_greedy[of "[CHR 0x22]" x "CHR 0x22 # rest" ?K "[Some k, None]"
        "(rest, [Some k, Some x])", OF nq _ K]
    by simp
  then show "bt (Opt (Seq (Seq (Cls [CHR ''='']) (Cls [CHR 0x22]))
                   (Seq (Grp 1 (Star (NCls [CHR 0x22]))) (Cls [CHR 0x22]))))
            ?r0 [Some k, None] kdone = Some (rest, [Some k, Some x])"
    by (simp add: bt_ev)
qed

lemma init_caps_attributes: "init_caps attributes = [None, None]"
  by (simp add: attributes_unfold)

lemma scan_white_space:
  "list_all (\<lambda>x. x \<in> set ws) sp \<Longrightarrow>
     scan attributes i (sp @ rest) = scan attributes (i + length sp) rest"
proof (induction sp arbitrary: i)
  case Nil
  then show ?case by simp
next
  case (Cons x sp)
  then have x: "x \<in> set ws" and sp: "list_all (\<lambda>x. x \<in> set ws) sp" by simp_all
  from x have "bt attributes (x # sp @ rest) [None, None] kdone = None"
    unfolding attributes_unfold by (simp add: bt_ev)
  then have "scan attributes i ((x # sp) @ rest) = scan attributes (Suc i) (sp @ rest)"
    by (simp add: scan_ev[of attributes i] init_caps_attributes)
  with Cons.IH[OF sp, of "Suc i"] show ?case by simp
qed

lemma findAll_from:
  "exec_from attributes str i = exec_from attributes str j \<Longrightarrow> findAll str i = findAll str j"
  by (simp add: findAll.simps[of str i] findAll.simps[of str j])

lemma exec_from_prefix:
  "exec_from attributes (p @ s) (length p) = scan attributes (length p) s"
  by (simp add: exec_from_def)

lemma findAll_attrs:
  "wf_attrs ats \<Longrightarrow>
     map (\<lambda>m. (grp m 1, grp m 2)) (findAll (p @ attrs_text ats) (length p)) =
       map (\<lambda>(k, v, sp). (Some k, v)) ats"
proof (induction ats arbitrary: p)
  case Nil
  have "bt attributes [] [None, None] kdone = None"
    unfolding attributes_unfold by (simp add: bt_ev)
  then have "exec_from attributes p (length p) = None"
    by (simp add: exec_from_def scan_ev[of attributes _ "[]"] init_caps_attributes)
  then show ?case
    by (simp add: attrs_text_def findAll.simps[of p "length p"])
next
  case (Cons a ats)
  obtain k v sp where a: "a = (k, v, sp)" by (metis prod_cases3)
  from Cons.prems a have nk: "attr_name k" and wsp: "list_all (\<lambda>x. x \<in> set ws) sp"
    and wf: "wf_attrs ats"
    and vv: "case v of None \<Rightarrow> ats = [] \<or> sp \<noteq> [] | Some x \<Rightarrow> CHR 0x22 \<notin> set x"
    by simp_all
  define body where "body = (case v of None \<Rightarrow> k | Some x \<Rightarrow> k @ [CHR ''='', CHR 0x22] @ x @ [CHR 0x22])"
  define rest where "rest = attrs_text ats"
  have tx: "attrs_text (a # ats) = body @ sp @ rest"
    by (cases v) (simp_all add: a attrs_text_def body_def rest_def)
  have hit: "bt attributes (body @ sp @ rest) [None, None] kdone = Some (sp @ rest, [Some k, v])"
  proof (cases v)
    case None
    with vv have "ats = [] \<or> sp \<noteq> []" by simp
    then have "sp @ rest = [] \<or> hd (sp @ rest) \<in> set ws"
    proof
      assume "ats = []"
      then show ?thesis using wsp by (cases sp) (simp_all add: rest_def attrs_text_def)
    next
      assume "sp \<noteq> []"
      then show ?thesis using wsp by (cases sp) simp_all
    qed
    from bt_attribute_without_value[OF nk this] None show ?thesis by (simp add: body_def)
  next
    case (Some x)
    with vv have "CHR 0x22 \<notin> set x" by simp
    from bt_attribute_with_value[OF nk this, of "sp @ rest"] Some show ?thesis
      by (simp add: body_def)
  qed
  let ?m = "\<lparr>index = length p, matched = body, groups = [Some k, v]\<rparr>"
  have e: "exec_from attributes (p @ body @ sp @ rest) (length p) = Some ?m"
    using hit by (simp add: exec_from_prefix scan_ev[of attributes "length p"] init_caps_attributes)
  have "exec_from attributes (p @ body @ sp @ rest) (length p + length body) =
          exec_from attributes (p @ body @ sp @ rest) (length p + length body + length sp)"
    using exec_from_prefix[of "p @ body" "sp @ rest"] exec_from_prefix[of "p @ body @ sp" rest]
      scan_white_space[OF wsp, of "length p + length body" rest]
    by (simp add: add.assoc)
  from findAll_from[OF this]
  have nx: "findAll (p @ body @ sp @ rest) (length p + length body) =
              findAll ((p @ body @ sp) @ attrs_text ats) (length (p @ body @ sp))"
    by (simp add: rest_def add.assoc)
  have "findAll (p @ body @ sp @ rest) (length p) =
          ?m # findAll ((p @ body @ sp) @ attrs_text ats) (length (p @ body @ sp))"
    using e nx by (simp add: findAll.simps[of "p @ body @ sp @ rest" "length p"])
  moreover have "grp ?m 1 = Some k" "grp ?m 2 = v"
    by (simp_all add: grp_def)
  ultimately show ?case
    using Cons.IH[OF wf, of "p @ body @ sp"] by (simp add: tx[unfolded a] a rest_def)
qed

lemma parseProps_attrs:
  assumes "wf_attrs ats"
  shows "parseProps (attrs_text ats) = foldl store_attr [] ats"
proof -
  let ?F = "\<lambda>props (a, b). props_set props (to_string a) (if truthy b then PStr (to_string b) else PTrue)"
  have "parseProps (attrs_text ats) =
          foldl ?F [] (map (\<lambda>m. (grp m 1, grp m 2)) (findAll (attrs_text ats) 0))"
    by (simp add: parseProps_def foldl_map)
  also have "\<dots> = foldl ?F [] (map (\<lambda>(k, v, sp). (Some k, v)) ats)"
    using findAll_attrs[OF assms, of "[]"] by simp
  also have "\<dots> = foldl store_attr [] ats"
  proof -
    have "?F d ((\<lambda>(k, v, sp). (Some k, v)) a) = store_attr d a" for d a
    proof -
      obtain k v sp where a: "a = (k, v, sp)" by (metis prod_cases3)
      show ?thesis
      proof (cases v)
        case None
        then show ?thesis by (simp add: a to_string_def truthy_def stored_def)
      next
        case (Some x)
        then show ?thesis by (cases x) (simp_all add: a to_string_def truthy_def stored_def)
      qed
    qed
    then show ?thesis by (simp add: foldl_map)
  qed
  finally show ?thesis .
qed


lemma map_of_update_key:
  "dict_in k d \<Longrightarrow>
     map_of (map (\<lambda>(k', v'). if k' = k then (k', v) else (k', v')) d) k'' =
       (if k'' = k then Some v else map_of d k'')"
proof (induction d)
  case Nil
  then show ?case by (simp add: dict_in_def)
next
  case (Cons a d)
  obtain k' v' where a: "a = (k', v')" by (cases a)
  show ?case
  proof (cases "k' = k")
    case True
    show ?thesis
    proof (cases "dict_in k d")
      case True
      from Cons.IH[OF this] \<open>k' = k\<close> a show ?thesis by auto
    next
      case False
      then have "map (\<lambda>(k', v'). if k' = k then (k', v) else (k', v')) d = d"
        by (induction d) (auto simp: dict_in_def)
      with \<open>k' = k\<close> a show ?thesis by simp
    qed
  next
    case False
    with Cons.prems a have "dict_in k d" by (auto simp: dict_in_def)
    from Cons.IH[OF this] False a show ?thesis by auto
  qed
qed

lemma map_of_insert_index:
  "\<not> dict_in k d \<Longrightarrow>
     map_of (insert_index n k v d) k'' = (if k'' = k then Some v else map_of d k'')"
proof (induction d)
  case Nil
  then show ?case by simp
next
  case (Cons a d)
  obtain k' v' where a: "a = (k', v')" by (cases a)
  from Cons.prems a have "k' \<noteq> k" and "\<not> dict_in k d" by (auto simp: dict_in_def)
  with Cons.IH a show ?case by (auto split: option.splits)
qed

lemma map_of_append_key:
  "\<not> dict_in k d \<Longrightarrow> map_of (d @ [(k, v)]) k'' = (if k'' = k then Some v else map_of d k'')"
proof (induction d)
  case Nil
  then show ?case by simp
next
  case (Cons a d)
  obtain k' v' where a: "a = (k', v')" by (cases a)
  from Cons.prems a have "k' \<noteq> k" and "\<not> dict_in k d" by (auto simp: dict_in_def)
  with Cons.IH a show ?case by (auto simp del: map_of_append)
qed

lemma map_of_dict_set:
  "map_of (dict_set d k v) k'' = (if k'' = k then Some v else map_of d k'')"
proof (cases "dict_in k d")
  case True
  then show ?thesis by (simp add: dict_set_def map_of_update_key)
next
  case False
  show ?thesis
  proof (cases "array_index k")
    case None
    with False show ?thesis
      by (simp add: dict_set_def map_of_append_key del: map_of_append)
  next
    case (Some n)
    with False show ?thesis
      by (simp add: dict_set_def map_of_insert_index)
  qed
qed

lemma map_of_store_attr:
  "k \<notin> set (map fst post) \<Longrightarrow> map_of (foldl store_attr d post) k = map_of d k"
proof (induction post arbitrary: d)
  case Nil
  then show ?case by simp
next
  case (Cons a post)
  obtain k' v sp where a: "a = (k', v, sp)" by (metis prod_cases3)
  with Cons.prems have "k' \<noteq> k" and "k \<notin> set (map fst post)" by auto
  with Cons.IH[of "store_attr d a"] a show ?case
    by (simp add: props_set_def map_of_dict_set)
qed

text \<open>
  C10, as the claim states it: the attribute \<open>__proto__=""\<close> stores nothing, and so
  does the attribute \<open>__proto__\<close> without a value. No prop has the value \<open>true\<close>: the
  props of \<open><p __proto__=""/>\<close> are empty.
\<close>

theorem proto_attribute_stores_nothing:
  "parseProps ''__proto__=\"\"'' = [] \<and> parseProps ''__proto__'' = [] \<and>
   parse ''<p __proto__=\"\"/>'' = Inr [VNode 0 ''p'' (Some []) [] None None]"
proof -
  have a: "parseProps ''__proto__=\"\"'' = []" by (simp add: parse_ev)
  have b: "parseProps ''__proto__'' = []" by (simp add: parse_ev)
  have c: "parse ''<p __proto__=\"\"/>'' = Inr [VNode 0 ''p'' (Some []) [] None None]"
    by (simp add: parse_ev)
  from a b c show ?thesis by simp
qed

text \<open>
  C10, amended. In a well-formed attribute text, an attribute \<open>k=""\<close> is stored by the
  assignment of \<open>true\<close> to the prop \<open>k\<close>, after the attributes before it and before the
  attributes after it: for a key other than \<open>__proto__\<close> the prop is created, or changed
  in its place, with the value \<open>true\<close>, and it has that value in the result unless a
  later attribute has the same key; for the key \<open>__proto__\<close> nothing is stored. In both
  cases the props are the props of the same text with the attribute written without a
  value.
\<close>

theorem empty_value_is_true:
  assumes "wf_attrs (pre @ (k, Some [], sp) # post)"
  shows "parseProps (attrs_text (pre @ (k, Some [], sp) # post)) =
           foldl store_attr
             (if k = ''__proto__'' then foldl store_attr [] pre
              else dict_set (foldl store_attr [] pre) k PTrue) post \<and>
         (k \<noteq> ''__proto__'' \<and> k \<notin> set (map fst post) \<longrightarrow>
            map_of (parseProps (attrs_text (pre @ (k, Some [], sp) # post))) k = Some PTrue) \<and>
         (wf_attrs (pre @ (k, None, sp') # post) \<longrightarrow>
            parseProps (attrs_text (pre @ (k, Some [], sp) # post)) =
            parseProps (attrs_text (pre @ (k, None, sp') # post)))"
proof -
  have p: "parseProps (attrs_text (pre @ (k, Some [], sp) # post)) =
             foldl store_attr
               (if k = ''__proto__'' then foldl store_attr [] pre
                else dict_set (foldl store_attr [] pre) k PTrue) post"
    by (simp add: parseProps_attrs[OF assms] stored_def props_set_def)
  have m: "map_of (parseProps (attrs_text (pre @ (k, Some [], sp) # post))) k = Some PTrue"
    if "k \<noteq> ''__proto__''" and "k \<notin> set (map fst post)"
    using that by (simp add: p map_of_store_attr map_of_dict_set)
  have q: "parseProps (attrs_text (pre @ (k, Some [], sp) # post)) =
           parseProps (attrs_text (pre @ (k, None, sp') # post))"
    if "wf_attrs (pre @ (k, None, sp') # post)"
    by (simp add: parseProps_attrs[OF assms] parseProps_attrs[OF that] stored_def)
  from p m q show ?thesis by blast
qed

theorem empty_value_is_true_witness:
  "parseProps ''a=\"1\" k=\"\"'' = [(''a'', PStr ''1''), (''k'', PTrue)] \<and>
   map_of (parseProps ''a=\"1\" k=\"\"'') ''k'' = Some PTrue \<and>
   parseProps ''a=\"1\" k=\"\"'' = parseProps ''a=\"1\" k''"
  using empty_value_is_true[of "[(''a'', Some ''1'', '' '')]" "''k''" "[]" "[]" "[]"]
  by (auto simp: attr_name_def ws_def attrs_text_def stored_def dict_ev)


section \<open>Directives\<close>
















end
